theory Spec2Isabelle
  imports Main
begin

section \<open>JavaScript strings\<close>

text \<open>
  A JavaScript string is a sequence of UTF-16 code units. \<open>length\<close> is
  \<^verbatim>\<open>String.prototype.length\<close>, \<open>take n\<close> is \<^verbatim>\<open>slice(0, n)\<close> and \<open>@\<close> is
  concatenation (template literals). ASCII literals of the source are written
  \<open>js ''...''\<close>.
\<close>

type_synonym jsstring = "nat list"

definition js :: "string \<Rightarrow> jsstring" where
  "js s = map of_char s"

text \<open>\<^verbatim>\<open>hay.includes(needle)\<close>: the needle occurs at some position of the haystack.\<close>

fun js_includes :: "jsstring \<Rightarrow> jsstring \<Rightarrow> bool" where
  "js_includes [] needle = (needle = [])"
| "js_includes (x # xs) needle =
     (take (length needle) (x # xs) = needle \<or> js_includes xs needle)"

text \<open>\<^verbatim>\<open>a || b\<close> on strings: the empty string is falsy.\<close>

definition str_or :: "jsstring \<Rightarrow> jsstring \<Rightarrow> jsstring" where
  "str_or a b = (if a = [] then b else a)"

text \<open>\<^verbatim>\<open>username.replace(/^@/, "")\<close>: one leading at-sign is dropped.\<close>

definition stripAt :: "jsstring \<Rightarrow> jsstring" where
  "stripAt u = (case u of [] \<Rightarrow> [] | c # cs \<Rightarrow> if c = 64 then cs else c # cs)"

definition isDigit :: "nat \<Rightarrow> bool" where
  "isDigit c = (48 \<le> c \<and> c \<le> 57)"

text \<open>
  \<^verbatim>\<open>s.match(/(\d+)/)\<close>: the first maximal run of decimal digits, \<open>None\<close> when the
  string has no digit.
\<close>

fun matchDigits :: "jsstring \<Rightarrow> jsstring option" where
  "matchDigits [] = None"
| "matchDigits (c # cs) =
     (if isDigit c then Some (takeWhile isDigit (c # cs)) else matchDigits cs)"

text \<open>
  \<^verbatim>\<open>s.match(/\/status\/(\d+)/)\<close>: at the leftmost position where \<^verbatim>\<open>/status/\<close> is
  followed by a digit, the maximal run of digits there.
\<close>

fun matchStatus :: "jsstring \<Rightarrow> jsstring option" where
  "matchStatus [] = None"
| "matchStatus (c # cs) =
     (let s = c # cs; rest = drop 8 s in
      if take 8 s = js ''/status/'' \<and> rest \<noteq> [] \<and> isDigit (hd rest)
      then Some (takeWhile isDigit rest)
      else matchStatus cs)"

text \<open>\<^verbatim>\<open>parseInt\<close> on a string of decimal digits.\<close>

definition parseInt :: "jsstring \<Rightarrow> nat" where
  "parseInt ds = foldl (\<lambda>acc c. 10 * acc + (c - 48)) 0 ds"

section \<open>The rendered page as the code reads it\<close>

text \<open>
  The page driver is an external collaborator. A DOM snapshot holds the answer to each
  query the source makes with \<^verbatim>\<open>querySelector\<close>, \<^verbatim>\<open>querySelectorAll\<close>,
  \<^verbatim>\<open>page.$\<close> and \<^verbatim>\<open>page.$$\<close>; an absent element is \<open>None\<close> or \<open>False\<close>.
  An \<^verbatim>\<open>article[data-testid="tweet"]\<close> carries what the feed check and the comment
  scraper read from it; for a counter button the outer option is the presence of the
  element and the inner one its \<^verbatim>\<open>aria-label\<close> attribute.
\<close>

record article =
  permalink :: "jsstring option"
  nameSpan :: "jsstring option"
  handleSpan :: "jsstring option"
  timeEl :: "(jsstring option \<times> jsstring) option"
  tweetText :: "jsstring option"
  replyBtn :: "jsstring option option"
  unreplyBtn :: "jsstring option option"
  retweetBtn :: "jsstring option option"
  unretweetBtn :: "jsstring option option"
  likeBtn :: "jsstring option option"
  unlikeBtn :: "jsstring option option"

record dom =
  href :: jsstring
  scrollHeight :: nat
  cells :: "article option list"
  tweetButton :: bool
  tweetButtonInline :: bool
  toast :: "jsstring option"
  composeFileInput :: bool
  appBarClose :: bool
  roleButtons :: "jsstring list"
  emptyStateHeader :: bool
  userNameLandmark :: bool
  unknownAvatar :: bool
  unfollowBg :: "jsstring option"
  ariaButtons :: "(jsstring option \<times> jsstring option) list"
  followBtn :: bool
  confirmBtn :: bool
  menuItems :: "jsstring list option"
  mainTweetText :: "jsstring option"
  pageReply :: "jsstring option option"
  pageUnreply :: "jsstring option option"
  pageRetweet :: "jsstring option option"
  pageUnretweet :: "jsstring option option"
  pageLike :: "jsstring option option"
  pageUnlike :: "jsstring option option"
  pageBookmark :: "jsstring option option"
  pageRemoveBookmark :: "jsstring option option"
  labelledLinks :: "jsstring list"
  likeHandles :: nat
  fileInputs :: nat
  applyButton :: bool
  saveButton :: bool
  displayNameInput :: bool
  descriptionInput :: bool
  locationInput :: bool
  urlInput :: bool

section \<open>Driver calls, errors, events and the session\<close>

datatype waitUntil = NetworkIdle2 | DomContentLoaded

datatype target =
    TweetButton | TweetButtonInline | AppBarClose | RoleButton nat
  | FollowButton | UnfollowButton | AriaButton nat | ConfirmButton | MenuItem nat
  | TestId jsstring

datatype selector =
    TweetTextarea | RoleTextbox | ProfileLandmarks | SaveButtonSel
  | DisplayNameSel | DescriptionSel | LocationSel | UrlSel
  | ComposeFileInputSel | FileInputSel | LikeSel

record cookieObject =
  ck_name :: jsstring
  ck_value :: jsstring
  ck_domain :: jsstring
  ck_path :: jsstring
  ck_expires :: nat
  ck_secure :: bool
  ck_sameSite :: jsstring
  ck_httpOnly :: bool

text \<open>
  Every call the source makes on puppeteer, the browser, the page or an element handle
  is an \<open>action\<close>. \<open>Click\<close> is a \<^verbatim>\<open>click()\<close> made inside \<^verbatim>\<open>page.evaluate\<close>;
  \<open>ClickSel\<close> and \<open>TypeSel\<close> are \<^verbatim>\<open>page.click\<close> and \<^verbatim>\<open>page.type\<close>;
  \<open>HandleClick\<close>, \<open>HandleType\<close> and \<open>Upload\<close> act on the \<open>n\<close>-th element handle
  of a selector.
\<close>

datatype action =
    Launch bool "jsstring option"
  | NewPage
  | Pages
  | CloseBrowser
  | CheckForUpdates
  | SetUserAgent
  | HideWebdriver
  | SetCookie "cookieObject list"
  | Goto jsstring waitUntil int
  | Delay nat
  | ReadUrl
  | WaitForSelector selector nat
  | Evaluate
  | Query selector
  | Click target
  | ClickSel selector
  | TypeSel selector jsstring nat
  | HandleClick selector nat
  | HandleType selector nat jsstring nat
  | Upload selector nat jsstring
  | ScrollBy nat
  | KeyDown jsstring
  | KeyPress jsstring
  | KeyUp jsstring
  | OnDialog
  | OffDialog
  | OnceDialog

datatype error = Error jsstring | DriverError action | TypeError

text \<open>
  The trace is the session's interaction log: each driver call in order, each DOM
  snapshot and each URL handed to the code by a read, and the entry of the two repair
  helpers.
\<close>

datatype entry = Act action | Obs dom | UrlRead jsstring | Enter string

record tweet_result =
  tr_success :: bool
  tr_content :: jsstring
  tr_postId :: "jsstring option"
  tr_timestamp :: jsstring

record follow_result =
  fr_username :: jsstring
  fr_status :: jsstring
  fr_timestamp :: jsstring

record profile_result =
  pr_avatar :: bool
  pr_header :: bool
  pr_displayName :: bool
  pr_bio :: bool
  pr_location :: bool
  pr_website :: bool
  pr_saved :: bool
  pr_timestamp :: jsstring

datatype event =
    EvReady | EvLoginRequired | EvBrowserLaunched | EvError error | EvClosed
  | EvTweetPosted tweet_result | EvTweetFailed jsstring error
  | EvUserFollowed follow_result | EvFollowFailed jsstring error
  | EvUserUnfollowed follow_result | EvUnfollowFailed jsstring error
  | EvProfileSetup profile_result | EvProfileSetupFailed error

text \<open>
  The environment is everything outside the repository: how the browser answers a call
  made on a receiver (\<open>None\<close> for puppeteer and the browser, \<open>Some p\<close> for page \<open>p\<close>),
  with \<open>False\<close> when the call throws, and what the reads return. \<open>dialogSeen\<close> tells
  whether a native dialog has fired on the page since the \<^verbatim>\<open>dialog\<close> handler was
  attached (the handler's \<^verbatim>\<open>dialogHandled\<close> flag). The theorems hold for every
  environment.
\<close>

record 'w env =
  react :: "nat option \<Rightarrow> action \<Rightarrow> 'w \<Rightarrow> bool \<times> 'w"
  domOf :: "nat \<Rightarrow> 'w \<Rightarrow> dom"
  urlOf :: "nat \<Rightarrow> 'w \<Rightarrow> jsstring"
  dialogSeen :: "nat \<Rightarrow> 'w \<Rightarrow> bool"
  newPageId :: "'w \<Rightarrow> nat"
  pageIds :: "'w \<Rightarrow> nat list"
  existsSync :: "'w \<Rightarrow> jsstring \<Rightarrow> bool"
  isAbsolute :: "jsstring \<Rightarrow> bool"
  resolvePath :: "jsstring \<Rightarrow> jsstring"
  nowISO :: "'w \<Rightarrow> jsstring"
  nowSeconds :: "'w \<Rightarrow> nat"
  jitter :: "'w \<Rightarrow> nat"
  win32 :: bool
  localAppData :: jsstring
  encodeURIComponent :: "jsstring \<Rightarrow> jsstring"
  toLowerCase :: "jsstring \<Rightarrow> jsstring"

text \<open>The fields of \<^verbatim>\<open>TwitterBot\<close>, with the world, the trace and the emitted events.\<close>

record 'w bot =
  cookies :: "(jsstring \<times> jsstring) list"
  username :: jsstring
  headless :: bool
  timeout :: int
  chromePath :: "jsstring option"
  browser :: bool
  page :: "nat option"
  isReady :: bool
  world :: 'w
  trace :: "entry list"
  events :: "event list"

section \<open>Control flow: results, exceptions, try and catch\<close>

type_synonym ('w, 'a) prog = "'w bot \<Rightarrow> (error + 'a) \<times> 'w bot"

definition ret :: "'a \<Rightarrow> ('w, 'a) prog" where
  "ret x s = (Inr x, s)"

definition throw :: "error \<Rightarrow> ('w, 'a) prog" where
  "throw e s = (Inl e, s)"

definition bnd :: "('w, 'a) prog \<Rightarrow> ('a \<Rightarrow> ('w, 'b) prog) \<Rightarrow> ('w, 'b) prog" where
  "bnd m f s = (case m s of (Inl e, s') \<Rightarrow> (Inl e, s') | (Inr x, s') \<Rightarrow> f x s')"

definition tryCatch :: "('w, 'a) prog \<Rightarrow> (error \<Rightarrow> ('w, 'a) prog) \<Rightarrow> ('w, 'a) prog" where
  "tryCatch m h s = (case m s of (Inl e, s') \<Rightarrow> h e s' | (Inr x, s') \<Rightarrow> (Inr x, s'))"

text \<open>\<^verbatim>\<open>try { ... } catch { /* ignore */ }\<close>: the failure is dropped, the effects stay.\<close>

definition swallow :: "('w, unit) prog \<Rightarrow> ('w, unit) prog" where
  "swallow m s = (Inr (), snd (m s))"

definition get :: "('w bot \<Rightarrow> 'a) \<Rightarrow> ('w, 'a) prog" where
  "get f s = (Inr (f s), s)"

definition log :: "entry \<Rightarrow> ('w, unit) prog" where
  "log x s = (Inr (), s\<lparr>trace := trace s @ [x]\<rparr>)"

text \<open>
  \<^verbatim>\<open>this.emit(name, payload)\<close>. The listeners are external collaborators; emission is
  modelled as observational (an entry of the event log), that is, with listeners
  registered for the emitted event that return normally.
\<close>

definition emit :: "event \<Rightarrow> ('w, unit) prog" where
  "emit ev s = (Inr (), s\<lparr>events := events s @ [ev]\<rparr>)"

text \<open>
  A call on a receiver: logged, answered by the environment, and an exception when the
  environment says so. A call on \<^verbatim>\<open>this.page\<close> while it is \<^verbatim>\<open>null\<close> is a
  \<^verbatim>\<open>TypeError\<close>.
\<close>

definition call :: "'w env \<Rightarrow> nat option \<Rightarrow> action \<Rightarrow> ('w, unit) prog" where
  "call env rcv a s =
     (let (ok, w') = react env rcv a (world s);
          s' = s\<lparr>world := w', trace := trace s @ [Act a]\<rparr>
      in if ok then (Inr (), s') else (Inl (DriverError a), s'))"

definition perform :: "'w env \<Rightarrow> action \<Rightarrow> ('w, unit) prog" where
  "perform env a s =
     (case page s of None \<Rightarrow> (Inl TypeError, s) | Some p \<Rightarrow> call env (Some p) a s)"

text \<open>\<^verbatim>\<open>await delay(ms)\<close>: time passes in the world; a timer does not throw.\<close>

definition delay :: "'w env \<Rightarrow> nat \<Rightarrow> ('w, unit) prog" where
  "delay env ms s =
     (Inr (), s\<lparr>world := snd (react env None (Delay ms) (world s)),
                 trace := trace s @ [Act (Delay ms)]\<rparr>)"

text \<open>
  \<^verbatim>\<open>page.on\<close>, \<^verbatim>\<open>page.off\<close> and \<^verbatim>\<open>page.once\<close> for the \<^verbatim>\<open>dialog\<close> event: a
  registration on the page object, which fails only when \<^verbatim>\<open>this.page\<close> is \<^verbatim>\<open>null\<close>.
\<close>

definition listen :: "'w env \<Rightarrow> action \<Rightarrow> ('w, unit) prog" where
  "listen env a s =
     (case page s of None \<Rightarrow> (Inl TypeError, s)
      | Some p \<Rightarrow> (Inr (), s\<lparr>world := snd (react env (Some p) a (world s)),
                               trace := trace s @ [Act a]\<rparr>))"

definition goto :: "'w env \<Rightarrow> jsstring \<Rightarrow> waitUntil \<Rightarrow> ('w, unit) prog" where
  "goto env u wu s = perform env (Goto u wu (timeout s)) s"

text \<open>A read of the DOM (\<^verbatim>\<open>page.evaluate\<close>, \<^verbatim>\<open>page.$\<close>, \<^verbatim>\<open>page.$$\<close>): the call, then the snapshot.\<close>

definition observe :: "'w env \<Rightarrow> action \<Rightarrow> ('w, dom) prog" where
  "observe env a =
     bnd (perform env a) (\<lambda>_ s.
       let d = domOf env (the (page s)) (world s)
       in (Inr d, s\<lparr>trace := trace s @ [Obs d]\<rparr>))"

definition evaluate :: "'w env \<Rightarrow> ('w, dom) prog" where
  "evaluate env = observe env Evaluate"

definition readUrl :: "'w env \<Rightarrow> ('w, jsstring) prog" where
  "readUrl env =
     bnd (perform env ReadUrl) (\<lambda>_ s.
       let u = urlOf env (the (page s)) (world s)
       in (Inr u, s\<lparr>trace := trace s @ [UrlRead u]\<rparr>))"

text \<open>\<^verbatim>\<open>_waitFor\<close>: \<^verbatim>\<open>waitForSelector\<close> with its exception turned into \<open>False\<close>.\<close>

definition waitFor :: "'w env \<Rightarrow> selector \<Rightarrow> nat \<Rightarrow> ('w, bool) prog" where
  "waitFor env sel t =
     tryCatch (bnd (perform env (WaitForSelector sel t)) (\<lambda>_. ret True)) (\<lambda>_. ret False)"

definition ensureReady :: "('w, unit) prog" where
  "ensureReady s =
     (if \<not> isReady s
      then (Inl (Error (js ''Bot not ready. Call .init() and wait for 'ready' event.'')), s)
      else (Inr (), s))"

text \<open>The session fields an operation leaves alone.\<close>

definition sameSession :: "'w bot \<Rightarrow> 'w bot \<Rightarrow> bool" where
  "sameSession s s' =
     (cookies s' = cookies s \<and> username s' = username s \<and> headless s' = headless s
      \<and> timeout s' = timeout s \<and> chromePath s' = chromePath s \<and> browser s' = browser s
      \<and> page s' = page s \<and> isReady s' = isReady s)"

section \<open>Follow and unfollow\<close>

text \<open>The three-way probe of the profile page: error landmark, profile landmark, neither.\<close>

definition profileExists :: "dom \<Rightarrow> bool" where
  "profileExists d =
     (if emptyStateHeader d then False
      else if userNameLandmark d then True
      else if unknownAvatar d then False
      else True)"

text \<open>
  The first element whose test id ends in \<^verbatim>\<open>-unfollow\<close> has a transparent inline
  background.
\<close>

definition transparentBg :: "dom \<Rightarrow> bool" where
  "transparentBg d =
     (case unfollowBg d of None \<Rightarrow> False
      | Some bg \<Rightarrow> bg = js ''rgba(0, 0, 0, 0)'' \<or> bg = js ''transparent'')"

text \<open>A button whose \<^verbatim>\<open>aria-label\<close> contains an at-sign and whose \<^verbatim>\<open>aria-haspopup\<close> is \<^verbatim>\<open>menu\<close>.\<close>

definition atMenuButton :: "jsstring option \<times> jsstring option \<Rightarrow> bool" where
  "atMenuButton b =
     (js_includes (case fst b of None \<Rightarrow> [] | Some l \<Rightarrow> l) (js ''@'')
      \<and> snd b = Some (js ''menu''))"

text \<open>
  The state probe. \<^verbatim>\<open>followUser\<close> names the first answer \<^verbatim>\<open>"already_following"\<close> and
  \<^verbatim>\<open>unfollowUser\<close> names it \<^verbatim>\<open>"following"\<close>; the two closures are otherwise the same.
\<close>

datatype follow_state = Following | NotFollowing | Unknown

definition followState :: "dom \<Rightarrow> follow_state" where
  "followState d =
     (if transparentBg d then Following
      else if list_ex atMenuButton (ariaButtons d) then Following
      else if followBtn d then NotFollowing
      else Unknown)"

definition followConfirmed :: "dom \<Rightarrow> bool" where
  "followConfirmed d =
     (if transparentBg d then True
      else if list_ex atMenuButton (ariaButtons d) then True
      else False)"

text \<open>Navigation to the profile, the profile probe and the state probe, as both operations start.\<close>

definition probeFollowState :: "'w env \<Rightarrow> jsstring \<Rightarrow> ('w, follow_state) prog" where
  "probeFollowState env uname =
     bnd (goto env (js ''https://x.com/'' @ uname) NetworkIdle2) (\<lambda>_.
     bnd (delay env 2000) (\<lambda>_.
     bnd (evaluate env) (\<lambda>d.
     if \<not> profileExists d
     then throw (Error (js ''User @'' @ uname @ js '' not found or account is suspended''))
     else bnd (evaluate env) (\<lambda>d. ret (followState d)))))"

definition followOutcome :: "'w env \<Rightarrow> jsstring \<Rightarrow> string \<Rightarrow> ('w, follow_result) prog" where
  "followOutcome env uname st s =
     (Inr \<lparr>fr_username = uname, fr_status = js st, fr_timestamp = nowISO env (world s)\<rparr>, s)"

definition followAct :: "'w env \<Rightarrow> jsstring \<Rightarrow> ('w, follow_result) prog" where
  "followAct env uname =
     bnd (evaluate env) (\<lambda>d.
     bnd (if followBtn d then perform env (Click FollowButton) else ret ()) (\<lambda>_.
     bnd (delay env 2000) (\<lambda>_.
     bnd (evaluate env) (\<lambda>d.
     if \<not> followConfirmed d
     then throw (Error (js ''Follow action for @'' @ uname @ js '' did not complete''))
     else bnd (followOutcome env uname ''followed'') (\<lambda>result.
          bnd (emit (EvUserFollowed result)) (\<lambda>_. ret result))))))"

definition followBody :: "'w env \<Rightarrow> jsstring \<Rightarrow> ('w, follow_result) prog" where
  "followBody env uname =
     bnd (probeFollowState env uname) (\<lambda>st.
     if st = Following then followOutcome env uname ''already_following''
     else if st = Unknown
     then throw (Error (js ''Could not detect follow button for @'' @ uname))
     else followAct env uname)"

definition followUser :: "'w env \<Rightarrow> jsstring \<Rightarrow> ('w, follow_result) prog" where
  "followUser env uname0 =
     bnd ensureReady (\<lambda>_.
     if uname0 = [] then throw (Error (js ''Username is required''))
     else let uname = stripAt uname0 in
       tryCatch (followBody env uname)
         (\<lambda>err. bnd (emit (EvFollowFailed uname err)) (\<lambda>_. throw err)))"

text \<open>
  The control \<^verbatim>\<open>unfollowUser\<close> clicks: the transparent unfollow button, else the first
  at-sign menu button.
\<close>

fun findIndex :: "('a \<Rightarrow> bool) \<Rightarrow> 'a list \<Rightarrow> nat option" where
  "findIndex P [] = None"
| "findIndex P (x # xs) =
     (if P x then Some 0 else map_option Suc (findIndex P xs))"

definition unfollowTarget :: "dom \<Rightarrow> target option" where
  "unfollowTarget d =
     (if transparentBg d then Some UnfollowButton
      else map_option AriaButton (findIndex atMenuButton (ariaButtons d)))"

text \<open>
  Flow B, the dropdown: the first menu item whose lower-cased text contains the
  lower-cased handle, else the only item when there is exactly one.
\<close>

definition menuChoice :: "'w env \<Rightarrow> jsstring \<Rightarrow> jsstring list \<Rightarrow> nat option" where
  "menuChoice env uname items =
     (case findIndex (\<lambda>t. js_includes (toLowerCase env t) (js ''@'' @ toLowerCase env uname)) items of
        Some i \<Rightarrow> Some i
      | None \<Rightarrow> if length items = 1 then Some 0 else None)"

definition unfollowFlowB :: "'w env \<Rightarrow> jsstring \<Rightarrow> ('w, unit) prog" where
  "unfollowFlowB env uname =
     bnd (evaluate env) (\<lambda>d.
     case (case menuItems d of None \<Rightarrow> None | Some items \<Rightarrow> menuChoice env uname items) of
       None \<Rightarrow> throw (Error (js ''Unfollow confirmation not found for @'' @ uname))
     | Some i \<Rightarrow>
         bnd (perform env (Click (MenuItem i))) (\<lambda>_.
         bnd (delay env 1000) (\<lambda>_.
         bnd (evaluate env) (\<lambda>d.
         if confirmBtn d then perform env (Click ConfirmButton) else ret ()))))"

definition unfollowAct :: "'w env \<Rightarrow> jsstring \<Rightarrow> ('w, follow_result) prog" where
  "unfollowAct env uname =
     bnd (evaluate env) (\<lambda>d.
     case unfollowTarget d of
       None \<Rightarrow> throw (Error (js ''Could not find unfollow button for @'' @ uname))
     | Some t \<Rightarrow>
         bnd (perform env (Click t)) (\<lambda>_.
         bnd (delay env 1500) (\<lambda>_.
         bnd (evaluate env) (\<lambda>d.
         bnd (if confirmBtn d then perform env (Click ConfirmButton)
              else unfollowFlowB env uname) (\<lambda>_.
         bnd (delay env 2000) (\<lambda>_.
         bnd (evaluate env) (\<lambda>d.
         if \<not> followBtn d
         then throw (Error (js ''Unfollow action for @'' @ uname @ js '' did not complete''))
         else bnd (followOutcome env uname ''unfollowed'') (\<lambda>result.
              bnd (emit (EvUserUnfollowed result)) (\<lambda>_. ret result)))))))))"

definition unfollowBody :: "'w env \<Rightarrow> jsstring \<Rightarrow> ('w, follow_result) prog" where
  "unfollowBody env uname =
     bnd (probeFollowState env uname) (\<lambda>st.
     if st = NotFollowing then followOutcome env uname ''not_following''
     else if st = Unknown
     then throw (Error (js ''Could not detect follow/unfollow button for @'' @ uname))
     else unfollowAct env uname)"

definition unfollowUser :: "'w env \<Rightarrow> jsstring \<Rightarrow> ('w, follow_result) prog" where
  "unfollowUser env uname0 =
     bnd ensureReady (\<lambda>_.
     if uname0 = [] then throw (Error (js ''Username is required''))
     else let uname = stripAt uname0 in
       tryCatch (unfollowBody env uname)
         (\<lambda>err. bnd (emit (EvUnfollowFailed uname err)) (\<lambda>_. throw err)))"

text \<open>What the probe adds to the trace: one navigation, one settle delay and two reads.\<close>

definition probeTrace :: "'w bot \<Rightarrow> jsstring \<Rightarrow> dom \<Rightarrow> dom \<Rightarrow> entry list" where
  "probeTrace s uname d1 d2 =
     [Act (Goto (js ''https://x.com/'' @ uname) NetworkIdle2 (timeout s)), Act (Delay 2000),
      Act Evaluate, Obs d1, Act Evaluate, Obs d2]"

text \<open>What the follow click and its verification add to the trace.\<close>

definition followActTrace :: "dom \<Rightarrow> dom \<Rightarrow> entry list" where
  "followActTrace d0 d =
     [Act Evaluate, Obs d0] @ (if followBtn d0 then [Act (Click FollowButton)] else [])
       @ [Act (Delay 2000), Act Evaluate, Obs d]"

section \<open>Text normalization and the feed check\<close>

text \<open>
  With the \<^verbatim>\<open>u\<close> flag a regular expression reads the string by code points: a high
  surrogate followed by a low surrogate is one code point, every other code unit
  (a lone surrogate included) is a code point of its own.
\<close>

definition isHigh :: "nat \<Rightarrow> bool" where
  "isHigh c = (0xD800 \<le> c \<and> c \<le> 0xDBFF)"

definition isLow :: "nat \<Rightarrow> bool" where
  "isLow c = (0xDC00 \<le> c \<and> c \<le> 0xDFFF)"

definition codePoint :: "nat \<Rightarrow> nat \<Rightarrow> nat" where
  "codePoint hi lo = 0x10000 + (hi - 0xD800) * 0x400 + (lo - 0xDC00)"

text \<open>\<^verbatim>\<open>s.replace(/[\u{lo}-\u{hi}]/gu, '')\<close>: one pass, left to right.\<close>

fun replaceRangeU :: "nat \<Rightarrow> nat \<Rightarrow> jsstring \<Rightarrow> jsstring" where
  "replaceRangeU lo hi [] = []"
| "replaceRangeU lo hi [c] = (if lo \<le> c \<and> c \<le> hi then [] else [c])"
| "replaceRangeU lo hi (c # d # cs) =
     (if isHigh c \<and> isLow d
      then (if lo \<le> codePoint c d \<and> codePoint c d \<le> hi
            then replaceRangeU lo hi cs
            else c # d # replaceRangeU lo hi cs)
      else (if lo \<le> c \<and> c \<le> hi
            then replaceRangeU lo hi (d # cs)
            else c # replaceRangeU lo hi (d # cs)))"

text \<open>
  White space as \<^verbatim>\<open>trim()\<close> and \<^verbatim>\<open>\s\<close> read it: tab, line feed, vertical tab, form
  feed, carriage return, space, no-break space, the Unicode space separators, the line
  and paragraph separators and the byte order mark.
\<close>

definition isSpace :: "nat \<Rightarrow> bool" where
  "isSpace c =
     ((9 \<le> c \<and> c \<le> 13) \<or> c = 32 \<or> c = 0xA0 \<or> c = 0x1680
      \<or> (0x2000 \<le> c \<and> c \<le> 0x200A) \<or> c = 0x2028 \<or> c = 0x2029 \<or> c = 0x202F
      \<or> c = 0x205F \<or> c = 0x3000 \<or> c = 0xFEFF)"

definition js_trim :: "jsstring \<Rightarrow> jsstring" where
  "js_trim s = rev (dropWhile isSpace (rev (dropWhile isSpace s)))"

text \<open>\<^verbatim>\<open>s.replace(/\s+/g, ' ')\<close>: every maximal run of white space becomes one space.\<close>

fun collapseSpaces :: "bool \<Rightarrow> jsstring \<Rightarrow> jsstring" where
  "collapseSpaces inRun [] = []"
| "collapseSpaces inRun (c # cs) =
     (if isSpace c
      then (if inRun then collapseSpaces True cs else 32 # collapseSpaces True cs)
      else c # collapseSpaces False cs)"

text \<open>The helper \<^verbatim>\<open>normalizeText\<close> of the verification closure, replacement by replacement.\<close>

definition normalizeText :: "jsstring \<Rightarrow> jsstring" where
  "normalizeText str =
     collapseSpaces False
      (js_trim
        (filter (\<lambda>c. c \<noteq> 0x20E3)
          (filter (\<lambda>c. c \<noteq> 0x200D)
            (filter (\<lambda>c. \<not> (0xFE00 \<le> c \<and> c \<le> 0xFE0F))
              (replaceRangeU 0x2700 0x27BF
                (replaceRangeU 0x2600 0x26FF
                  (replaceRangeU 0x1FA70 0x1FAFF
                    (replaceRangeU 0x1FA00 0x1FA6F
                      (replaceRangeU 0x1F900 0x1F9FF
                        (replaceRangeU 0x1F800 0x1F8FF
                          (replaceRangeU 0x1F780 0x1F7FF
                            (replaceRangeU 0x1F700 0x1F77F
                              (replaceRangeU 0x1F680 0x1F6FF
                                (replaceRangeU 0x1F300 0x1F5FF
                                  (replaceRangeU 0x1F600 0x1F64F str)))))))))))))))"

record verification =
  vf_found :: bool
  vf_postId :: "jsstring option"

text \<open>
  The identifier of a matching article: the \<^verbatim>\<open>href\<close> of its status link (the empty
  string when the article has none), matched against \<^verbatim>\<open>/status/(\d+)\<close>.
\<close>

definition postIdOf :: "article \<Rightarrow> jsstring option" where
  "postIdOf a = matchStatus (case permalink a of None \<Rightarrow> [] | Some h \<Rightarrow> h)"

text \<open>
  The loop over the first ten cells, from index \<open>i\<close>. The list of texts it collects
  for the debug output is left out: it reaches the console only.
\<close>

function scanCells :: "jsstring \<Rightarrow> article option list \<Rightarrow> nat \<Rightarrow> verification" where
  "scanCells searchText cs i =
     (if i < min (length cs) 10
      then (case cs ! i of
              None \<Rightarrow> scanCells searchText cs (i + 1)
            | Some a \<Rightarrow>
                (case tweetText a of
                   None \<Rightarrow> scanCells searchText cs (i + 1)
                 | Some cellText \<Rightarrow>
                     if js_includes (normalizeText cellText) searchText
                     then \<lparr>vf_found = True, vf_postId = postIdOf a\<rparr>
                     else scanCells searchText cs (i + 1)))
      else \<lparr>vf_found = False, vf_postId = None\<rparr>)"
  by pat_completeness auto
termination
  by (relation "measure (\<lambda>(searchText, cs, i). min (length cs) 10 - i)") auto

declare scanCells.simps [simp del]

definition verifyFeed :: "jsstring \<Rightarrow> dom \<Rightarrow> verification" where
  "verifyFeed tweetText0 d = scanCells (take 20 (normalizeText tweetText0)) (cells d) 0"

section \<open>Cleanup and recovery\<close>

text \<open>
  \<^verbatim>\<open>_dismissCompose\<close>: the one-shot dialog handler, then, inside a \<^verbatim>\<open>try\<close> whose
  \<^verbatim>\<open>catch\<close> ignores the failure, the close button and the discard confirmation.
\<close>

definition isDiscard :: "'w env \<Rightarrow> jsstring \<Rightarrow> bool" where
  "isDiscard env t =
     (let l = toLowerCase env t
      in l = js ''discard'' \<or> l = js ''at'' \<or> l = js ''vazge'' @ [0xE7])"

definition dismissCompose :: "'w env \<Rightarrow> ('w, unit) prog" where
  "dismissCompose env =
     bnd (log (Enter ''_dismissCompose'')) (\<lambda>_.
     bnd (listen env OnceDialog) (\<lambda>_.
     swallow
       (bnd (evaluate env) (\<lambda>d.
        if appBarClose d
        then bnd (perform env (Click AppBarClose)) (\<lambda>_.
             bnd (delay env 500) (\<lambda>_.
             bnd (evaluate env) (\<lambda>d.
             bnd (case findIndex (isDiscard env) (roleButtons d) of
                    None \<Rightarrow> ret ()
                  | Some i \<Rightarrow> perform env (Click (RoleButton i))) (\<lambda>_.
             delay env 500))))
        else ret ()))))"

text \<open>
  \<^verbatim>\<open>Object.entries(this.cookies).map(...)\<close> of \<^verbatim>\<open>_buildCookieObjects\<close>.
\<close>

definition cookieObjectOf :: "nat \<Rightarrow> jsstring \<times> jsstring \<Rightarrow> cookieObject" where
  "cookieObjectOf nowSec nv =
     (let name = fst nv in
      \<lparr>ck_name = name, ck_value = snd nv, ck_domain = js ''.x.com'', ck_path = js ''/'',
       ck_expires = nowSec + 365 * 24 * 60 * 60, ck_secure = True,
       ck_sameSite = (if name = js ''kdt'' then js ''Strict''
                      else if name = js ''ct0'' then js ''Lax'' else js ''None''),
       ck_httpOnly = (name = js ''auth_token'' \<or> name = js ''kdt'' \<or> name = js ''att'')\<rparr>)"

definition buildCookieObjects :: "'w env \<Rightarrow> 'w bot \<Rightarrow> cookieObject list" where
  "buildCookieObjects env s = map (cookieObjectOf (nowSeconds env (world s))) (cookies s)"

text \<open>A call on the browser; \<^verbatim>\<open>this.browser\<close> may be \<^verbatim>\<open>null\<close>.\<close>

definition onBrowser :: "'w env \<Rightarrow> action \<Rightarrow> ('w, unit) prog" where
  "onBrowser env a s = (if browser s then call env None a s else (Inl TypeError, s))"

text \<open>\<^verbatim>\<open>this.page = await this.browser.newPage()\<close> and the two identity settings.\<close>

definition openPage :: "'w env \<Rightarrow> ('w, unit) prog" where
  "openPage env =
     bnd (onBrowser env NewPage) (\<lambda>_.
     bnd (\<lambda>s. (Inr (), s\<lparr>page := Some (newPageId env (world s))\<rparr>)) (\<lambda>_.
     bnd (perform env SetUserAgent) (\<lambda>_.
     perform env HideWebdriver)))"

definition setCookies :: "'w env \<Rightarrow> ('w, unit) prog" where
  "setCookies env s = perform env (SetCookie (buildCookieObjects env s)) s"

text \<open>
  The loop of \<^verbatim>\<open>_recoverPage\<close> over the browser's pages: a page whose URL can be read
  is adopted (and stays adopted when its navigation fails); the result tells whether a
  page was recovered.
\<close>

fun adoptPage :: "'w env \<Rightarrow> nat list \<Rightarrow> 'w bot \<Rightarrow> bool \<times> 'w bot" where
  "adoptPage env [] s = (False, s)"
| "adoptPage env (p # ps) s =
     (case call env (Some p) ReadUrl s of
        (Inl e, s1) \<Rightarrow> adoptPage env ps s1
      | (Inr _, s1) \<Rightarrow>
          (case bnd (listen env OnceDialog)
                  (\<lambda>_. goto env (js ''https://x.com/home'') DomContentLoaded)
                  (s1\<lparr>page := Some p\<rparr>) of
             (Inl e, s2) \<Rightarrow> adoptPage env ps s2
           | (Inr _, s2) \<Rightarrow> (True, s2)))"

definition recoverPage :: "'w env \<Rightarrow> ('w, unit) prog" where
  "recoverPage env =
     bnd (log (Enter ''_recoverPage'')) (\<lambda>_.
     bnd (listen env OnceDialog) (\<lambda>_.
     bnd (tryCatch
            (bnd (readUrl env) (\<lambda>_. goto env (js ''https://x.com/home'') DomContentLoaded))
            (\<lambda>_.
              bnd (onBrowser env Pages) (\<lambda>_.
              bnd (\<lambda>s. (case adoptPage env (pageIds env (world s)) s of
                           (recovered, s') \<Rightarrow> (Inr recovered, s'))) (\<lambda>recovered.
              if recovered then ret ()
              else bnd (openPage env) (\<lambda>_.
                   bnd (setCookies env) (\<lambda>_.
                   goto env (js ''https://x.com/home'') DomContentLoaded)))))) (\<lambda>_.
     delay env 1000)))"

section \<open>Posting a tweet\<close>

text \<open>
  The upload loop: each path is made absolute, checked on the file system and uploaded
  through the compose surface's file input; after the settle delay an accepted dialog
  means the upload was rejected.
\<close>

fun uploadAll :: "'w env \<Rightarrow> jsstring list \<Rightarrow> 'w bot \<Rightarrow> (error + unit) \<times> 'w bot" where
  "uploadAll env [] s = (Inr (), s)"
| "uploadAll env (f # fs) s =
     (let filePath = (if \<not> isAbsolute env f then resolvePath env f else f) in
      if \<not> existsSync env (world s) filePath
      then bnd (listen env OffDialog)
             (\<lambda>_. throw (Error (js ''File not found: '' @ filePath))) s
      else
        (case bnd (perform env (Upload ComposeFileInputSel 0 filePath))
                (\<lambda>_. delay env 2500) s of
           (Inl e, s1) \<Rightarrow> (Inl e, s1)
         | (Inr _, s1) \<Rightarrow>
             (case page s1 of
                None \<Rightarrow> (Inl TypeError, s1)
              | Some p \<Rightarrow>
                  if dialogSeen env p (world s1)
                  then bnd (listen env OffDialog)
                         (\<lambda>_. throw (Error (js
                            ''Media upload failed - file may be unsupported or too large''))) s1
                  else uploadAll env fs s1)))"

definition uploadMedia :: "'w env \<Rightarrow> jsstring list \<Rightarrow> ('w, unit) prog" where
  "uploadMedia env media =
     (if length media > 0
      then bnd (observe env (Query ComposeFileInputSel)) (\<lambda>d.
           if \<not> composeFileInput d
           then bnd (listen env OffDialog) (\<lambda>_. throw (Error (js ''File input not found'')))
           else bnd (uploadAll env media) (\<lambda>_. delay env 1000))
      else ret ())"

text \<open>
  The poll for the compose surface to close: every 500 ms the location is read, until
  it no longer contains \<^verbatim>\<open>/compose\<close> or the budget is spent. The result is
  \<^verbatim>\<open>stillOnCompose\<close>.
\<close>

function pollCompose :: "'w env \<Rightarrow> nat \<Rightarrow> nat \<Rightarrow> 'w bot \<Rightarrow> (error + bool) \<times> 'w bot" where
  "pollCompose env postTimeout elapsed s =
     (if elapsed < postTimeout
      then (case bnd (delay env 500) (\<lambda>_. evaluate env) s of
              (Inl e, s1) \<Rightarrow> (Inl e, s1)
            | (Inr d, s1) \<Rightarrow>
                if \<not> js_includes (href d) (js ''/compose'') then (Inr False, s1)
                else pollCompose env postTimeout (elapsed + 500) s1)
      else (Inr True, s))"
  by pat_completeness auto
termination
  by (relation "measure (\<lambda>(env, postTimeout, elapsed, s). postTimeout - elapsed)") auto

declare pollCompose.simps [simp del]

definition composeTweet :: "'w env \<Rightarrow> jsstring \<Rightarrow> ('w, unit) prog" where
  "composeTweet env content =
     bnd (listen env OnDialog) (\<lambda>_.
     bnd (goto env (js ''https://x.com/compose/post'') NetworkIdle2) (\<lambda>_.
     bnd (delay env 1000) (\<lambda>_.
     bnd (waitFor env TweetTextarea 10000) (\<lambda>primary.
     bnd (if primary then ret True else waitFor env RoleTextbox 5000) (\<lambda>found.
     if \<not> found
     then bnd (listen env OffDialog) (\<lambda>_. throw (Error (js ''Tweet textarea not found'')))
     else bnd (perform env (ClickSel TweetTextarea)) (\<lambda>_.
          bnd (delay env 200) (\<lambda>_.
          bnd (perform env (TypeSel TweetTextarea content 30)) (\<lambda>_.
          delay env 500))))))))"

text \<open>The click on the post button and the wait for the compose surface to close.\<close>

definition submitTweet :: "'w env \<Rightarrow> bool \<Rightarrow> ('w, unit) prog" where
  "submitTweet env hasMedia =
     bnd (evaluate env) (\<lambda>d.
     if \<not> (tweetButton d \<or> tweetButtonInline d) then throw (Error (js ''Post button not found''))
     else
     bnd (perform env (Click (if tweetButton d then TweetButton else TweetButtonInline))) (\<lambda>_.
     bnd (pollCompose env (if hasMedia then 30000 else 8000) 0) (\<lambda>stillOnCompose.
     if stillOnCompose
     then bnd (evaluate env) (\<lambda>d.
          bnd (dismissCompose env) (\<lambda>_.
          throw (Error (str_or (case toast d of None \<Rightarrow> [] | Some t \<Rightarrow> js_trim t)
                               (js ''Tweet could not be posted'')))))
     else ret ())))"

text \<open>The settle delay, the feed check on a fresh read, and the result.\<close>

definition confirmTweet :: "'w env \<Rightarrow> jsstring \<Rightarrow> bool \<Rightarrow> ('w, tweet_result) prog" where
  "confirmTweet env content hasMedia =
     bnd (delay env (if hasMedia then 5000 else 3000)) (\<lambda>_.
     bnd (evaluate env) (\<lambda>d.
     let verification = verifyFeed content d in
     if \<not> vf_found verification
     then bnd (listen env OffDialog)
            (\<lambda>_. throw (Error (js ''Tweet not found in feed after posting'')))
     else bnd (listen env OffDialog) (\<lambda>_.
          bnd (get (\<lambda>s. \<lparr>tr_success = True, tr_content = content,
                          tr_postId = vf_postId verification,
                          tr_timestamp = nowISO env (world s)\<rparr>)) (\<lambda>result.
          bnd (emit (EvTweetPosted result)) (\<lambda>_. ret result)))))"

definition postTweetBody :: "'w env \<Rightarrow> jsstring \<Rightarrow> jsstring list \<Rightarrow> ('w, tweet_result) prog" where
  "postTweetBody env content media =
     bnd (composeTweet env content) (\<lambda>_.
     bnd (uploadMedia env media) (\<lambda>_.
     bnd (submitTweet env (length media > 0)) (\<lambda>_.
     confirmTweet env content (length media > 0))))"

text \<open>
  \<^verbatim>\<open>postTweet(text, { media })\<close>. The three input checks stand before the \<^verbatim>\<open>try\<close>.
  In the \<^verbatim>\<open>catch\<close> block the handler constant of the \<^verbatim>\<open>try\<close> block is out of scope,
  so \<^verbatim>\<open>typeof dialogHandler\<close> is \<^verbatim>\<open>"undefined"\<close> there and the guarded \<^verbatim>\<open>page.off\<close>
  is not reached; what the block does is recovery with its failure ignored, the
  failure event, and the rethrow.
\<close>

definition postTweet :: "'w env \<Rightarrow> jsstring \<Rightarrow> jsstring list \<Rightarrow> ('w, tweet_result) prog" where
  "postTweet env content media =
     bnd ensureReady (\<lambda>_.
     if content = [] then throw (Error (js ''Tweet text is required''))
     else if length content > 280 then throw (Error (js ''Tweet exceeds 280 characters''))
     else if length media > 4 then throw (Error (js ''Maximum 4 media files allowed''))
     else tryCatch (postTweetBody env content media)
            (\<lambda>err. bnd (swallow (recoverPage env)) (\<lambda>_.
                   bnd (emit (EvTweetFailed content err)) (\<lambda>_. throw err))))"

section \<open>Tweet statistics and comments\<close>

record comment =
  cm_tweetId :: "jsstring option"
  cm_username :: jsstring
  cm_handle :: jsstring
  cm_content :: jsstring
  cm_time :: jsstring
  cm_likes :: nat
  cm_replies :: nat
  cm_reposts :: nat

text \<open>
  A counter read from a button: the element is the first of the two selectors that
  matches; the count is the first run of digits of its \<^verbatim>\<open>aria-label\<close>, and 0 without
  an element or without a digit.
\<close>

definition parseLabel :: "jsstring option option \<Rightarrow> jsstring option option \<Rightarrow> nat" where
  "parseLabel a b =
     (case (case a of Some l \<Rightarrow> Some l | None \<Rightarrow> b) of
        None \<Rightarrow> 0
      | Some lbl \<Rightarrow>
          (case matchDigits (case lbl of None \<Rightarrow> [] | Some l \<Rightarrow> l) of
             None \<Rightarrow> 0
           | Some ds \<Rightarrow> parseInt ds))"

definition commentOf :: "article \<Rightarrow> comment" where
  "commentOf a =
     \<lparr>cm_tweetId = (case permalink a of None \<Rightarrow> None | Some h \<Rightarrow> matchStatus h),
      cm_username = (case nameSpan a of None \<Rightarrow> [] | Some n \<Rightarrow> n),
      cm_handle = (case handleSpan a of None \<Rightarrow> [] | Some h \<Rightarrow> h),
      cm_content = (case tweetText a of None \<Rightarrow> [] | Some t \<Rightarrow> t),
      cm_time = (case timeEl a of None \<Rightarrow> []
                 | Some (dt, inner) \<Rightarrow> str_or (case dt of None \<Rightarrow> [] | Some x \<Rightarrow> x) inner),
      cm_likes = parseLabel (likeBtn a) (unlikeBtn a),
      cm_replies = parseLabel (replyBtn a) (unreplyBtn a),
      cm_reposts = parseLabel (retweetBtn a) (unretweetBtn a)\<rparr>"

text \<open>
  The cells that hold an article, without the first one (the main tweet), each turned
  into a comment: the closure of \<^verbatim>\<open>scrapeVisibleComments\<close> and the reply loop of
  \<^verbatim>\<open>getTweetStats\<close>.
\<close>

definition visibleComments :: "dom \<Rightarrow> comment list" where
  "visibleComments d = map commentOf (drop 1 (List.map_filter (\<lambda>c. c) (cells d)))"

definition tweetUrl :: "'w bot \<Rightarrow> jsstring \<Rightarrow> jsstring" where
  "tweetUrl s tweetId =
     (if username s \<noteq> [] then js ''https://x.com/'' @ username s @ js ''/status/'' @ tweetId
      else js ''https://x.com/i/status/'' @ tweetId)"

text \<open>
  The view counter: \<^verbatim>\<open>/view/i\<close> and the Turkish word are matched without regard to
  case (a pattern letter matches itself and its capital, 32 code units below), the
  number is the first run of digits, commas and dots with the separators removed, and
  \<^verbatim>\<open>parseInt\<close> of an empty string is \<^verbatim>\<open>NaN\<close> (\<open>None\<close>).
\<close>

fun ciPrefix :: "jsstring \<Rightarrow> jsstring \<Rightarrow> bool" where
  "ciPrefix [] s = True"
| "ciPrefix (p # ps) [] = False"
| "ciPrefix (p # ps) (c # cs) = ((c = p \<or> c = p - 32) \<and> ciPrefix ps cs)"

fun ciIncludes :: "jsstring \<Rightarrow> jsstring \<Rightarrow> bool" where
  "ciIncludes pat [] = (pat = [])"
| "ciIncludes pat (c # cs) = (ciPrefix pat (c # cs) \<or> ciIncludes pat cs)"

definition isCountChar :: "nat \<Rightarrow> bool" where
  "isCountChar c = (isDigit c \<or> c = 44 \<or> c = 46)"

fun matchCount :: "jsstring \<Rightarrow> jsstring option" where
  "matchCount [] = None"
| "matchCount (c # cs) =
     (if isCountChar c then Some (takeWhile isCountChar (c # cs)) else matchCount cs)"

fun viewsOf :: "jsstring list \<Rightarrow> nat option" where
  "viewsOf [] = Some 0"
| "viewsOf (label # ls) =
     (if ciIncludes (js ''view'') label
         \<or> ciIncludes [0x67, 0xF6, 0x72, 0xFC, 0x6E, 0x74, 0xFC, 0x6C, 0x65, 0x6E, 0x6D, 0x65] label
      then (case matchCount label of
              None \<Rightarrow> viewsOf ls
            | Some m \<Rightarrow>
                (let ds = filter (\<lambda>c. c \<noteq> 44 \<and> c \<noteq> 46) m
                 in if ds = [] then None else Some (parseInt ds)))
      else viewsOf ls)"

record tweet_stats =
  ts_id :: jsstring
  ts_url :: jsstring
  ts_content :: jsstring
  ts_likes :: nat
  ts_replies :: nat
  ts_reposts :: nat
  ts_views :: "nat option"
  ts_bookmarks :: nat
  ts_initialReplies :: "comment list"

definition getTweetStats :: "'w env \<Rightarrow> jsstring \<Rightarrow> ('w, tweet_stats) prog" where
  "getTweetStats env tweetId =
     bnd ensureReady (\<lambda>_.
     if tweetId = [] then throw (Error (js ''Tweet ID is required''))
     else
     bnd (get (\<lambda>s. tweetUrl s tweetId)) (\<lambda>u.
     bnd (goto env u NetworkIdle2) (\<lambda>_.
     bnd (delay env 1500) (\<lambda>_.
     bnd (evaluate env) (\<lambda>d.
     ret \<lparr>ts_id = tweetId, ts_url = u,
          ts_content = (case mainTweetText d of None \<Rightarrow> [] | Some t \<Rightarrow> t),
          ts_likes = parseLabel (pageLike d) (pageUnlike d),
          ts_replies = parseLabel (pageReply d) (pageUnreply d),
          ts_reposts = parseLabel (pageRetweet d) (pageUnretweet d),
          ts_views = viewsOf (labelledLinks d),
          ts_bookmarks = parseLabel (pageBookmark d) (pageRemoveBookmark d),
          ts_initialReplies = visibleComments d\<rparr>)))))"

subsection \<open>The scroll loop\<close>

text \<open>The identity of a comment: its tweet id, else handle, underscore and text.\<close>

definition commentKey :: "comment \<Rightarrow> jsstring" where
  "commentKey c =
     str_or (case cm_tweetId c of None \<Rightarrow> [] | Some i \<Rightarrow> i)
            (cm_handle c @ js ''_'' @ cm_content c)"

text \<open>
  \<^verbatim>\<open>collectedMap\<close> is a \<^verbatim>\<open>Map\<close>: keys in insertion order, no key twice. The inner
  loop adds the comments whose key is new and stops as soon as the target is reached.
\<close>

type_synonym collected = "(jsstring \<times> comment) list"

fun mergeVisible :: "int \<Rightarrow> comment list \<Rightarrow> collected \<Rightarrow> nat \<Rightarrow> collected \<times> nat" where
  "mergeVisible targetCount [] m newFound = (m, newFound)"
| "mergeVisible targetCount (c # cs) m newFound =
     (let key = commentKey c;
          isNew = key \<notin> set (map fst m);
          m' = (if isNew then m @ [(key, c)] else m);
          newFound' = (if isNew then newFound + 1 else newFound)
      in if int (length m') \<ge> targetCount then (m', newFound')
         else mergeVisible targetCount cs m' newFound')"

lemma mergeVisible_count:
  "length m \<le> length (fst (mergeVisible t cs m n))
   \<and> snd (mergeVisible t cs m n) = n + (length (fst (mergeVisible t cs m n)) - length m)"
proof (induction cs arbitrary: m n)
  case Nil
  show ?case by simp
next
  case (Cons c cs)
  show ?case
    using Cons [of "m @ [(commentKey c, c)]" "Suc n"] Cons [of m n]
    by (auto simp: Let_def)
qed

lemma mergeVisible_length:
  "(m', n') = mergeVisible t cs m n \<Longrightarrow> length m' = length m + (n' - n) \<and> n \<le> n'"
  using mergeVisible_count [of m t cs n] by (cases "mergeVisible t cs m n") auto

text \<open>One scroll: the height before, the scroll by 800, the settle delay, the height after.\<close>

definition scrollStep :: "'w env \<Rightarrow> ('w, nat \<times> nat) prog" where
  "scrollStep env =
     bnd (evaluate env) (\<lambda>d0.
     bnd (perform env (ScrollBy 800)) (\<lambda>_.
     bnd (delay env 1500) (\<lambda>_.
     bnd (evaluate env) (\<lambda>d1.
     ret (scrollHeight d0, scrollHeight d1)))))"

text \<open>
  The \<^verbatim>\<open>while\<close> loop, with \<^verbatim>\<open>MAX_RETRIES = 5\<close>. It returns the map and the
  \<^verbatim>\<open>scrollBlocked\<close> flag, or the exception of a driver call.
\<close>

function scrollLoop ::
  "'w env \<Rightarrow> int \<Rightarrow> collected \<Rightarrow> nat \<Rightarrow> 'w bot \<Rightarrow> (error + collected \<times> bool) \<times> 'w bot" where
  "scrollLoop env targetCount m retries s =
     (if int (length m) < targetCount
      then (case evaluate env s of
              (Inl e, s1) \<Rightarrow> (Inl e, s1)
            | (Inr d, s1) \<Rightarrow>
                (case mergeVisible targetCount (visibleComments d) m 0 of
                   (m', newFound) \<Rightarrow>
                     if int (length m') \<ge> targetCount then (Inr (m', False), s1)
                     else if newFound = 0 \<and> retries + 1 \<ge> 5 then (Inr (m', True), s1)
                     else
                       (case scrollStep env s1 of
                          (Inl e, s2) \<Rightarrow> (Inl e, s2)
                        | (Inr (prevHeight, newHeight), s2) \<Rightarrow>
                            (let retries1 = (if newFound = 0 then retries + 1 else 0) in
                             if newHeight = prevHeight
                             then (if retries1 + 1 \<ge> 5 then (Inr (m', True), s2)
                                   else scrollLoop env targetCount m' (retries1 + 1)
                                          (snd (delay env 1000 s2)))
                             else scrollLoop env targetCount m' retries1 s2))))
      else (Inr (m, False), s))"
  by pat_completeness auto
termination
  apply (relation "measures [\<lambda>(env, t, m, r, s). nat (t - int (length m)),
                          \<lambda>(env, t, m, r, s). 5 - r]")
    apply simp
   apply (auto dest!: mergeVisible_length split: if_splits)
  done

declare scrollLoop.simps [simp del]

text \<open>\<^verbatim>\<open>array.slice(0, n)\<close> for an integer \<open>n\<close>: a negative \<open>n\<close> counts from the end.\<close>

definition slice0 :: "'a list \<Rightarrow> int \<Rightarrow> 'a list" where
  "slice0 xs n = (if n \<ge> 0 then take (nat n) xs else take (length xs - nat (- n)) xs)"

record comments_result =
  cr_id :: jsstring
  cr_url :: jsstring
  cr_requested :: int
  cr_actualReplyCount :: nat
  cr_collected :: nat
  cr_scrollBlocked :: bool
  cr_comments :: "comment list"

text \<open>
  \<^verbatim>\<open>getTweetComments(tweetId, count)\<close>, with \<^verbatim>\<open>count\<close> an integer. The navigation is
  skipped when the page is already on the tweet; the reply count is read from the
  first \<^verbatim>\<open>reply\<close> button; \<^verbatim>\<open>actualReplyCount || count\<close> takes \<^verbatim>\<open>count\<close> when the
  count read is 0.
\<close>

definition getTweetComments :: "'w env \<Rightarrow> jsstring \<Rightarrow> int \<Rightarrow> ('w, comments_result) prog" where
  "getTweetComments env tweetId count0 =
     bnd ensureReady (\<lambda>_.
     if tweetId = [] then throw (Error (js ''Tweet ID is required''))
     else
     bnd (get (\<lambda>s. tweetUrl s tweetId)) (\<lambda>u.
     bnd (readUrl env) (\<lambda>current.
     bnd (if \<not> js_includes current (js ''/status/'' @ tweetId)
          then goto env u NetworkIdle2 else ret ()) (\<lambda>_.
     bnd (delay env 2000) (\<lambda>_.
     bnd (evaluate env) (\<lambda>d.
     let actualReplyCount = parseLabel (pageReply d) None;
         targetCount = min count0 (if actualReplyCount = 0 then count0 else int actualReplyCount)
     in
     bnd (scrollLoop env targetCount [] 0) (\<lambda>(collectedMap, scrollBlocked).
     let comments = slice0 (map snd collectedMap) targetCount in
     ret \<lparr>cr_id = tweetId, cr_url = u, cr_requested = count0,
          cr_actualReplyCount = actualReplyCount, cr_collected = length comments,
          cr_scrollBlocked = scrollBlocked, cr_comments = comments\<rparr>)))))))"

section \<open>Search and like\<close>

record like_result =
  lr_query :: jsstring
  lr_liked :: nat

text \<open>
  The \<^verbatim>\<open>for\<close> loop over the first \<^verbatim>\<open>likesToDo\<close> handles: a click that does not throw
  is counted and followed by a delay of one to two seconds; a click that throws is
  skipped.
\<close>

fun likeEach :: "'w env \<Rightarrow> nat list \<Rightarrow> nat \<Rightarrow> 'w bot \<Rightarrow> nat \<times> 'w bot" where
  "likeEach env [] liked s = (liked, s)"
| "likeEach env (i # is) liked s =
     (case perform env (HandleClick LikeSel i) s of
        (Inl e, s1) \<Rightarrow> likeEach env is liked s1
      | (Inr _, s1) \<Rightarrow>
          likeEach env is (liked + 1) (snd (delay env (1000 + jitter env (world s1)) s1)))"

definition searchAndLike :: "'w env \<Rightarrow> jsstring \<Rightarrow> int \<Rightarrow> ('w, like_result) prog" where
  "searchAndLike env query count0 =
     bnd ensureReady (\<lambda>_.
     if query = [] then throw (Error (js ''Search query is required''))
     else
     bnd (goto env (js ''https://x.com/search?q='' @ encodeURIComponent env query
                      @ js ''&src=typed_query&f=live'') NetworkIdle2) (\<lambda>_.
     bnd (delay env 1000) (\<lambda>_.
     bnd (observe env (Query LikeSel)) (\<lambda>d.
     let likesToDo = min count0 (int (likeHandles d)) in
     bnd (\<lambda>s. (case likeEach env [0..<nat likesToDo] 0 s of
                  (liked, s') \<Rightarrow> (Inr liked, s'))) (\<lambda>liked.
     ret \<lparr>lr_query = query, lr_liked = liked\<rparr>)))))"

section \<open>Editing the profile\<close>

record profile_options =
  po_avatar :: "jsstring option"
  po_header :: "jsstring option"
  po_bio :: "jsstring option"
  po_displayName :: "jsstring option"
  po_location :: "jsstring option"
  po_website :: "jsstring option"

definition absolutePath :: "'w env \<Rightarrow> jsstring \<Rightarrow> jsstring" where
  "absolutePath env f = (if isAbsolute env f then f else resolvePath env f)"

text \<open>A path option is truthy when it is present and not the empty string.\<close>

definition truthy :: "jsstring option \<Rightarrow> bool" where
  "truthy f = (case f of None \<Rightarrow> False | Some x \<Rightarrow> x \<noteq> [])"

definition validateImage :: "'w env \<Rightarrow> string \<Rightarrow> jsstring option \<Rightarrow> ('w, unit) prog" where
  "validateImage env label f s =
     (if truthy f \<and> \<not> existsSync env (world s) (absolutePath env (the f))
      then (Inl (Error (js label @ js '' file not found: '' @ absolutePath env (the f))), s)
      else (Inr (), s))"

text \<open>\<^verbatim>\<open>_clickTestId\<close> for the two test ids it is called with.\<close>

datatype testid = ApplyButtonId | ProfileSaveButtonId

definition testidName :: "testid \<Rightarrow> jsstring" where
  "testidName t = (case t of ApplyButtonId \<Rightarrow> js ''applyButton''
                   | ProfileSaveButtonId \<Rightarrow> js ''Profile_Save_Button'')"

definition testidPresent :: "testid \<Rightarrow> dom \<Rightarrow> bool" where
  "testidPresent t d = (case t of ApplyButtonId \<Rightarrow> applyButton d
                        | ProfileSaveButtonId \<Rightarrow> saveButton d)"

definition clickTestId :: "'w env \<Rightarrow> testid \<Rightarrow> ('w, bool) prog" where
  "clickTestId env t =
     bnd (evaluate env) (\<lambda>d.
     if testidPresent t d
     then bnd (perform env (Click (TestId (testidName t)))) (\<lambda>_.
          bnd (delay env 500) (\<lambda>_. ret True))
     else ret False)"

definition fieldPresent :: "selector \<Rightarrow> dom \<Rightarrow> bool" where
  "fieldPresent sel d =
     (if sel = DisplayNameSel then displayNameInput d
      else if sel = DescriptionSel then descriptionInput d
      else if sel = LocationSel then locationInput d
      else if sel = UrlSel then urlInput d
      else False)"

text \<open>\<^verbatim>\<open>_fillProfileField\<close>: select all, delete, retype.\<close>

definition fillProfileField :: "'w env \<Rightarrow> selector \<Rightarrow> jsstring \<Rightarrow> ('w, bool) prog" where
  "fillProfileField env sel val =
     bnd (observe env (Query sel)) (\<lambda>d.
     if \<not> fieldPresent sel d then ret False
     else
     bnd (perform env (HandleClick sel 0)) (\<lambda>_.
     bnd (delay env 100) (\<lambda>_.
     bnd (perform env (KeyDown (js ''Control''))) (\<lambda>_.
     bnd (perform env (KeyPress (js ''a''))) (\<lambda>_.
     bnd (perform env (KeyUp (js ''Control''))) (\<lambda>_.
     bnd (perform env (KeyPress (js ''Backspace''))) (\<lambda>_.
     bnd (delay env 100) (\<lambda>_.
     bnd (perform env (HandleType sel 0 val 20)) (\<lambda>_.
     bnd (delay env 300) (\<lambda>_. ret True))))))))))"

text \<open>
  An image field: the \<open>n\<close>-th file input when the page has that many, the upload, the
  crop dialog, and the flag.
\<close>

definition uploadImage :: "'w env \<Rightarrow> jsstring option \<Rightarrow> nat \<Rightarrow> ('w, bool) prog" where
  "uploadImage env f n =
     (if truthy f
      then bnd (observe env (Query FileInputSel)) (\<lambda>d.
           if fileInputs d \<ge> n + 1
           then bnd (perform env (Upload FileInputSel n (absolutePath env (the f)))) (\<lambda>_.
                bnd (delay env 3000) (\<lambda>_.
                bnd (clickTestId env ApplyButtonId) (\<lambda>_.
                bnd (delay env 1500) (\<lambda>_. ret True))))
           else ret False)
      else ret False)"

definition fillOptional :: "'w env \<Rightarrow> selector \<Rightarrow> jsstring option \<Rightarrow> ('w, bool) prog" where
  "fillOptional env sel f =
     (case f of None \<Rightarrow> ret False | Some val \<Rightarrow> fillProfileField env sel val)"

definition setupProfileBody :: "'w env \<Rightarrow> profile_options \<Rightarrow> ('w, profile_result) prog" where
  "setupProfileBody env opts =
     bnd (goto env (js ''https://x.com/settings/profile'') NetworkIdle2) (\<lambda>_.
     bnd (delay env 2000) (\<lambda>_.
     bnd (waitFor env SaveButtonSel 10000) (\<lambda>pageReady.
     if \<not> pageReady then throw (Error (js ''Profile settings page did not load''))
     else
     bnd (get (\<lambda>s. nowISO env (world s))) (\<lambda>ts.
     bnd (uploadImage env (po_header opts) 0) (\<lambda>headerDone.
     bnd (uploadImage env (po_avatar opts) 1) (\<lambda>avatarDone.
     bnd (fillOptional env DisplayNameSel (po_displayName opts)) (\<lambda>nameDone.
     bnd (fillOptional env DescriptionSel (po_bio opts)) (\<lambda>bioDone.
     bnd (fillOptional env LocationSel (po_location opts)) (\<lambda>locationDone.
     bnd (fillOptional env UrlSel (po_website opts)) (\<lambda>websiteDone.
     bnd (clickTestId env ProfileSaveButtonId) (\<lambda>_.
     bnd (delay env 3000) (\<lambda>_.
     let result = \<lparr>pr_avatar = avatarDone, pr_header = headerDone,
                    pr_displayName = nameDone, pr_bio = bioDone,
                    pr_location = locationDone, pr_website = websiteDone,
                    pr_saved = True, pr_timestamp = ts\<rparr> in
     bnd (emit (EvProfileSetup result)) (\<lambda>_. ret result)))))))))))))"

definition setupProfile :: "'w env \<Rightarrow> profile_options \<Rightarrow> ('w, profile_result) prog" where
  "setupProfile env opts =
     bnd ensureReady (\<lambda>_.
     bnd (validateImage env ''avatar'' (po_avatar opts)) (\<lambda>_.
     bnd (validateImage env ''header'' (po_header opts)) (\<lambda>_.
     tryCatch (setupProfileBody env opts)
       (\<lambda>err. bnd (emit (EvProfileSetupFailed err)) (\<lambda>_. throw err)))))"

section \<open>Construction, initialization and shutdown\<close>

record options =
  op_cookies :: "(jsstring \<times> jsstring) list option"
  op_username :: "jsstring option"
  op_headless :: "bool option"
  op_timeout :: "int option"
  op_chromePath :: "jsstring option"

definition REQUIRED_COOKIES :: "jsstring list" where
  "REQUIRED_COOKIES = [js ''auth_token'', js ''ct0'', js ''twid'', js ''kdt'', js ''att'']"

text \<open>\<^verbatim>\<open>!options.cookies[name]\<close>: the cookie is missing or its value is the empty string.\<close>

definition cookieMissing :: "(jsstring \<times> jsstring) list \<Rightarrow> jsstring \<Rightarrow> bool" where
  "cookieMissing cs name = (case map_of cs name of None \<Rightarrow> True | Some v \<Rightarrow> v = [])"

text \<open>
  The constructor, on the world the session will run in. \<^verbatim>\<open>options.timeout || 600000\<close>:
  an omitted timeout and the falsy number 0 give 600000.
\<close>

definition newBot :: "options \<Rightarrow> 'w \<Rightarrow> error + 'w bot" where
  "newBot opts w =
     (case op_cookies opts of
        None \<Rightarrow> Inl (Error (js ''cookies is required''))
      | Some cs \<Rightarrow>
          (case find (cookieMissing cs) REQUIRED_COOKIES of
             Some name \<Rightarrow> Inl (Error (js ''Missing required cookie: '' @ name))
           | None \<Rightarrow>
               Inr \<lparr>cookies = cs,
                    username = (case op_username opts of None \<Rightarrow> [] | Some u \<Rightarrow> u),
                    headless = (case op_headless opts of None \<Rightarrow> True | Some h \<Rightarrow> h),
                    timeout = (case op_timeout opts of None \<Rightarrow> 600000
                               | Some t \<Rightarrow> if t = 0 then 600000 else t),
                    chromePath = (case op_chromePath opts of None \<Rightarrow> None
                                  | Some c \<Rightarrow> if c = [] then None else Some c),
                    browser = False, page = None, isReady = False,
                    world = w, trace = [], events = []\<rparr>))"

text \<open>
  The executable of the launch options: on Windows the first of three Chrome paths that
  exists, each segment after a backslash (code unit 92). The \<^verbatim>\<open>chromePath\<close> option
  is stored and not used by \<^verbatim>\<open>init\<close>.
\<close>

definition winPath :: "jsstring list \<Rightarrow> jsstring" where
  "winPath segs = concat (map (\<lambda>seg. 92 # seg) segs)"

definition chromeCandidates :: "'w env \<Rightarrow> jsstring list" where
  "chromeCandidates env =
     [js ''C:'' @ winPath [js ''Program Files'', js ''Google'', js ''Chrome'',
                           js ''Application'', js ''chrome.exe''],
      js ''C:'' @ winPath [js ''Program Files (x86)'', js ''Google'', js ''Chrome'',
                           js ''Application'', js ''chrome.exe''],
      localAppData env @ winPath [js ''Google'', js ''Chrome'', js ''Application'',
                                  js ''chrome.exe'']]"

definition executablePath :: "'w env \<Rightarrow> 'w \<Rightarrow> jsstring option" where
  "executablePath env w =
     (if win32 env then find (existsSync env w) (chromeCandidates env) else None)"

definition isLoginUrl :: "jsstring \<Rightarrow> bool" where
  "isLoginUrl u = (js_includes u (js ''/login'') \<or> js_includes u (js ''/i/flow/login''))"

definition setReady :: "bool \<Rightarrow> ('w, unit) prog" where
  "setReady b s = (Inr (), s\<lparr>isReady := b\<rparr>)"

text \<open>
  The \<^verbatim>\<open>try\<close> block of \<^verbatim>\<open>init\<close>, in the two parts its comments name. First the
  launch, the page and its identity, the cookies, the navigation home and the settle
  delay.
\<close>

definition launchAndNavigate :: "'w env \<Rightarrow> ('w, unit) prog" where
  "launchAndNavigate env =
     bnd (\<lambda>s. call env None (Launch (headless s) (executablePath env (world s))) s) (\<lambda>_.
     bnd (\<lambda>s. (Inr (), s\<lparr>browser := True\<rparr>)) (\<lambda>_.
     bnd (openPage env) (\<lambda>_.
     bnd (emit EvBrowserLaunched) (\<lambda>_.
     bnd (setCookies env) (\<lambda>_.
     bnd (goto env (js ''https://x.com/home'') NetworkIdle2) (\<lambda>_.
     delay env 1500))))))"

text \<open>
  Then the authentication check: the URL, the wait for a landmark of the logged-in
  sidebar and, when the landmark is missing, the URL again.
\<close>

definition verifyAuth :: "'w env \<Rightarrow> ('w, unit) prog" where
  "verifyAuth env =
     bnd (readUrl env) (\<lambda>currentUrl.
     if isLoginUrl currentUrl
     then bnd (setReady False) (\<lambda>_. emit EvLoginRequired)
     else
     bnd (waitFor env ProfileLandmarks 5000) (\<lambda>hasProfile.
     bnd (if \<not> hasProfile then readUrl env else ret []) (\<lambda>recheckUrl.
     if \<not> hasProfile \<and> isLoginUrl recheckUrl
     then bnd (setReady False) (\<lambda>_. emit EvLoginRequired)
     else bnd (setReady True) (\<lambda>_. emit EvReady))))"

definition initBody :: "'w env \<Rightarrow> ('w, unit) prog" where
  "initBody env = bnd (launchAndNavigate env) (\<lambda>_. verifyAuth env)"

text \<open>
  \<^verbatim>\<open>init()\<close>. The update check is a request that is not awaited and whose failures are
  ignored; \<^verbatim>\<open>return this\<close> is the final state.
\<close>

definition init :: "'w env \<Rightarrow> ('w, unit) prog" where
  "init env s =
     (if isReady s then (Inr (), s)
      else bnd (\<lambda>s. (Inr (), s\<lparr>trace := trace s @ [Act CheckForUpdates]\<rparr>)) (\<lambda>_.
           tryCatch (initBody env) (\<lambda>err. emit (EvError err))) s)"

definition close :: "'w env \<Rightarrow> ('w, unit) prog" where
  "close env s =
     (if browser s
      then bnd (call env None CloseBrowser) (\<lambda>_.
           bnd (\<lambda>s. (Inr (), s\<lparr>browser := False, page := None, isReady := False\<rparr>)) (\<lambda>_.
           emit EvClosed)) s
      else (Inr (), s))"

section \<open>The navigation budget as a trace invariant\<close>

text \<open>
  A program keeps the navigation budget when it leaves \<^verbatim>\<open>this.timeout\<close> alone, only
  appends to the trace, and every navigation it appends carries the session's timeout.
\<close>

definition budgetOk :: "int \<Rightarrow> entry \<Rightarrow> bool" where
  "budgetOk t x = (case x of Act (Goto u wu t') \<Rightarrow> t' = t | _ \<Rightarrow> True)"

definition navBudget :: "('w, 'a) prog \<Rightarrow> bool" where
  "navBudget m =
     (\<forall>s r s'. m s = (r, s') \<longrightarrow>
        timeout s' = timeout s
        \<and> (\<exists>tr. trace s' = trace s @ tr \<and> list_all (budgetOk (timeout s)) tr))"

text \<open>A program that never returns normally.\<close>

definition fails :: "('w, 'a) prog \<Rightarrow> bool" where
  "fails m = (\<forall>s r s'. m s \<noteq> (Inr r, s'))"

text \<open>Every result a program returns normally satisfies a predicate.\<close>

definition yields :: "('a \<Rightarrow> bool) \<Rightarrow> ('w, 'a) prog \<Rightarrow> bool" where
  "yields Q m = (\<forall>s r s'. m s = (Inr r, s') \<longrightarrow> Q r)"


text \<open>A program that leaves the readiness flag alone.\<close>

definition keepsReady :: "('w, 'a) prog \<Rightarrow> bool" where
  "keepsReady m = (\<forall>s r s'. m s = (r, s') \<longrightarrow> isReady s' = isReady s)"

text \<open>
  The invariant of \<^verbatim>\<open>collectedMap\<close>: no key twice, and every comment stored under its
  own identity.
\<close>

definition goodMap :: "collected \<Rightarrow> bool" where
  "goodMap m = (distinct (map fst m) \<and> (\<forall>kc \<in> set m. fst kc = commentKey (snd kc)))"


section \<open>Counting what a run does\<close>

text \<open>
  The cost of a trace under a price per entry; \<open>scrolls\<close> prices every
  \<^verbatim>\<open>window.scrollBy(0, 800)\<close> at one, \<open>waited\<close> prices every \<^verbatim>\<open>delay(ms)\<close> at
  \<open>ms\<close>. \<open>adds c n m\<close>: a run of \<open>m\<close> only extends the trace, by entries of total
  cost at most \<open>n\<close>.
\<close>

definition cost :: "(entry \<Rightarrow> nat) \<Rightarrow> entry list \<Rightarrow> nat" where
  "cost c tr = sum_list (map c tr)"

definition scrollPrice :: "entry \<Rightarrow> nat" where
  "scrollPrice x = (if x = Act (ScrollBy 800) then 1 else 0)"

definition delayPrice :: "entry \<Rightarrow> nat" where
  "delayPrice x = (case x of Act (Delay ms) \<Rightarrow> ms | _ \<Rightarrow> 0)"

definition scrolls :: "entry list \<Rightarrow> nat" where
  "scrolls = cost scrollPrice"

definition waited :: "entry list \<Rightarrow> nat" where
  "waited = cost delayPrice"


text \<open>Every driver call answers: none throws.\<close>

definition responsive :: "'w env \<Rightarrow> bool" where
  "responsive env = (\<forall>rcv a w. fst (react env rcv a w))"


text \<open>From a session on page \<open>p\<close> the program returns normally, still on page \<open>p\<close>.\<close>

definition succeeds :: "nat \<Rightarrow> ('w, 'a) prog \<Rightarrow> bool" where
  "succeeds p m = (\<forall>s. page s = Some p \<longrightarrow> (\<exists>x s'. m s = (Inr x, s') \<and> page s' = Some p))"

section \<open>The verification as the specification words it\<close>

text \<open>
  A string is well formed when every high surrogate is followed by a low surrogate and
  no low surrogate stands alone; \<open>codePoints\<close> reads a string by code points, as a
  regular expression with the \<^verbatim>\<open>u\<close> flag does.
\<close>

fun wellFormed :: "jsstring \<Rightarrow> bool" where
  "wellFormed [] = True"
| "wellFormed [c] = (\<not> isHigh c \<and> \<not> isLow c)"
| "wellFormed (c # d # cs) =
     (if isHigh c then isLow d \<and> wellFormed cs else \<not> isLow c \<and> wellFormed (d # cs))"







section \<open>Mock pages\<close>

text \<open>
  Concrete environments on which the operations are run: a DOM with nothing in it, an
  environment built from a reaction and a rendering function, and a session that is
  ready on page 0.
\<close>

definition blankDom :: dom where
  "blankDom = \<lparr>href = [], scrollHeight = 0, cells = [], tweetButton = False,
     tweetButtonInline = False, toast = None, composeFileInput = False, appBarClose = False,
     roleButtons = [], emptyStateHeader = False, userNameLandmark = False,
     unknownAvatar = False, unfollowBg = None, ariaButtons = [], followBtn = False,
     confirmBtn = False, menuItems = None, mainTweetText = None, pageReply = None,
     pageUnreply = None, pageRetweet = None, pageUnretweet = None, pageLike = None,
     pageUnlike = None, pageBookmark = None, pageRemoveBookmark = None, labelledLinks = [],
     likeHandles = 0, fileInputs = 0, applyButton = False, saveButton = False,
     displayNameInput = False, descriptionInput = False, locationInput = False,
     urlInput = False\<rparr>"

definition mockEnv :: "(action \<Rightarrow> 'w \<Rightarrow> bool \<times> 'w) \<Rightarrow> ('w \<Rightarrow> dom) \<Rightarrow> 'w env" where
  "mockEnv r render =
     \<lparr>react = (\<lambda>rcv. r), domOf = (\<lambda>p. render), urlOf = (\<lambda>p w. href (render w)),
      dialogSeen = (\<lambda>p w. False), newPageId = (\<lambda>w. 0), pageIds = (\<lambda>w. [0]),
      existsSync = (\<lambda>w f. True), isAbsolute = (\<lambda>f. True), resolvePath = (\<lambda>f. f),
      nowISO = (\<lambda>w. js ''2024-01-01T00:00:00.000Z''), nowSeconds = (\<lambda>w. 0),
      jitter = (\<lambda>w. 0), win32 = False, localAppData = [],
      encodeURIComponent = (\<lambda>q. q), toLowerCase = (\<lambda>t. t)\<rparr>"

definition readyBot :: "'w \<Rightarrow> 'w bot" where
  "readyBot w = \<lparr>cookies = [], username = [], headless = True, timeout = 600000,
     chromePath = None, browser = True, page = Some 0, isReady = True, world = w,
     trace = [], events = []\<rparr>"

text \<open>A page on which nothing is rendered and nothing changes.\<close>

definition blankSite :: "unit env" where
  "blankSite = mockEnv (\<lambda>a w. (True, w)) (\<lambda>w. blankDom)"

text \<open>
  A profile page whose world is whether the viewer follows the account: the follow
  button sets it, the confirmation of an unfollow (rendered with the unfollow control)
  clears it.
\<close>

definition profileSite :: "bool env" where
  "profileSite = mockEnv
     (\<lambda>a w. (True, if a = Click FollowButton then True
                    else if a = Click ConfirmButton then False else w))
     (\<lambda>w. if w then blankDom\<lparr>userNameLandmark := True,
                               unfollowBg := Some (js ''rgba(0, 0, 0, 0)''),
                               confirmBtn := True\<rparr>
          else blankDom\<lparr>userNameLandmark := True, followBtn := True\<rparr>)"

text \<open>The options of the quick start: the five cookies and nothing else.\<close>

definition demoOptions :: options where
  "demoOptions =
     \<lparr>op_cookies = Some [(js ''auth_token'', js ''a''), (js ''ct0'', js ''b''),
                         (js ''twid'', js ''c''), (js ''kdt'', js ''d''), (js ''att'', js ''e'')],
      op_username = None, op_headless = None, op_timeout = None, op_chromePath = None\<rparr>"

text \<open>
  The compose surface: world 0 is the compose page with its post button and file input,
  world 1 the home feed with one tweet. The post button and a navigation elsewhere lead
  to the feed.
\<close>

definition helloArticle :: article where
  "helloArticle =
     \<lparr>permalink = Some (js ''/me/status/1234567890''), nameSpan = Some (js ''Me''),
      handleSpan = Some (js ''@me''), timeEl = Some (Some (js ''2024-01-01T00:00:00.000Z''), js ''now''),
      tweetText = Some (js ''Hello world!''), replyBtn = None, unreplyBtn = None,
      retweetBtn = None, unretweetBtn = None, likeBtn = None, unlikeBtn = None\<rparr>"

definition composeDom :: dom where
  "composeDom = blankDom\<lparr>href := js ''https://x.com/compose/post'', tweetButton := True,
                           composeFileInput := True\<rparr>"

definition feedDom :: dom where
  "feedDom = blankDom\<lparr>href := js ''https://x.com/home'', cells := [None, Some helloArticle]\<rparr>"

definition composeSite :: "nat env" where
  "composeSite = mockEnv
     (\<lambda>a w. (True, case a of
                      Click t \<Rightarrow> 1
                    | Goto u wu t \<Rightarrow> if u = js ''https://x.com/compose/post'' then 0 else 1
                    | _ \<Rightarrow> w))
     (\<lambda>w. if w = 0 then composeDom else feedDom)"

text \<open>The same site on a machine where no file exists.\<close>

definition noFilesSite :: "nat env" where
  "noFilesSite = composeSite\<lparr>existsSync := (\<lambda>w f. False)\<rparr>"

text \<open>A profile page that shows the error landmark.\<close>

definition notFoundSite :: "unit env" where
  "notFoundSite = mockEnv (\<lambda>a w. (True, w)) (\<lambda>w. blankDom\<lparr>emptyStateHeader := True\<rparr>)"

text \<open>A browser in which every navigation and the listing of the pages throw.\<close>

definition deadSite :: "unit env" where
  "deadSite = mockEnv
     (\<lambda>a w. (case a of Goto u wu t \<Rightarrow> False | Pages \<Rightarrow> False | _ \<Rightarrow> True, w))
     (\<lambda>w. blankDom)"

text \<open>A search page with one like button on which a click changes nothing.\<close>

definition likeSite :: "unit env" where
  "likeSite = mockEnv (\<lambda>a w. (True, w)) (\<lambda>w. blankDom\<lparr>likeHandles := 1\<rparr>)"

text \<open>A profile edit that sets no field.\<close>

definition noProfileOptions :: profile_options where
  "noProfileOptions = \<lparr>po_avatar = None, po_header = None, po_bio = None,
     po_displayName = None, po_location = None, po_website = None\<rparr>"




text \<open>
  A thread: the main tweet, four replies (the last without a permalink) and a reply
  button that announces four replies. The page is already on the tweet.
\<close>

definition replyArticle :: "jsstring option \<Rightarrow> string \<Rightarrow> string \<Rightarrow> article" where
  "replyArticle link handle body =
     \<lparr>permalink = link, nameSpan = Some (js handle), handleSpan = Some (js ''@'' @ js handle),
      timeEl = None, tweetText = Some (js body), replyBtn = Some (Some (js ''0 Replies. Reply'')),
      unreplyBtn = None, retweetBtn = None, unretweetBtn = None,
      likeBtn = Some (Some (js ''12 Likes. Like'')), unlikeBtn = None\<rparr>"

definition threadDom :: dom where
  "threadDom = blankDom
     \<lparr>href := js ''https://x.com/i/status/123'',
      cells := [Some (replyArticle (Some (js ''/me/status/123'')) ''me'' ''main''),
                Some (replyArticle (Some (js ''/ann/status/201'')) ''ann'' ''first''),
                None,
                Some (replyArticle (Some (js ''/bob/status/202'')) ''bob'' ''second''),
                Some (replyArticle (Some (js ''/cy/status/203'')) ''cy'' ''third''),
                Some (replyArticle None ''dee'' ''fourth'')],
      pageReply := Some (Some (js ''4 Replies. Reply''))\<rparr>"

definition threadSite :: "unit env" where
  "threadSite = mockEnv (\<lambda>a w. (True, w)) (\<lambda>w. threadDom)"


text \<open>
  A thread that never shows more than its first four replies: the page grows by 800
  pixels with every scroll, the reply count is not rendered, and the cells stay the same.
  \<open>threadMap\<close> is the map of those four replies.
\<close>

definition stalledSite :: "nat env" where
  "stalledSite = mockEnv (\<lambda>a w. (True, if a = ScrollBy 800 then w + 1 else w))
                         (\<lambda>w. threadDom\<lparr>scrollHeight := 2000 + 800 * w, pageReply := None\<rparr>)"

definition threadMap :: collected where
  "threadMap = map (\<lambda>a. (commentKey (commentOf a), commentOf a))
     [replyArticle (Some (js ''/ann/status/201'')) ''ann'' ''first'',
      replyArticle (Some (js ''/bob/status/202'')) ''bob'' ''second'',
      replyArticle (Some (js ''/cy/status/203'')) ''cy'' ''third'',
      replyArticle None ''dee'' ''fourth'']"

section \<open>Reasoning about programs\<close>

lemmas prog_defs = bnd_def ret_def throw_def tryCatch_def get_def log_def emit_def
  call_def perform_def delay_def goto_def observe_def evaluate_def listen_def

lemmas mock_defs = mockEnv_def readyBot_def blankDom_def

lemma bnd_InrE:
  assumes "bnd m f s = (Inr r, s')"
  obtains x s1 where "m s = (Inr x, s1)" "f x s1 = (Inr r, s')"
  using assms by (cases "m s") (auto simp: bnd_def split: sum.splits)

lemma bnd_Inr: "m s = (Inr x, s1) \<Longrightarrow> bnd m f s = f x s1"
  by (simp add: bnd_def)

lemma bnd_Inl: "m s = (Inl e, s1) \<Longrightarrow> bnd m f s = (Inl e, s1)"
  by (simp add: bnd_def)

lemma ret_InrE:
  assumes "ret x s = (Inr r, s')"
  obtains "r = x" "s' = s"
  using assms by (simp add: ret_def)

lemma throw_not_Inr [simp]: "throw e s \<noteq> (Inr r, s')"
  by (simp add: throw_def)

lemma emit_InrE:
  assumes "emit ev s = (Inr x, s')"
  obtains "s' = s\<lparr>events := events s @ [ev]\<rparr>"
  using assms by (auto simp: emit_def)

lemma call_InrE:
  assumes "call env rcv a s = (Inr x, s')"
  obtains w where "s' = s\<lparr>world := w, trace := trace s @ [Act a]\<rparr>"
  using assms by (auto simp: call_def Let_def split: prod.splits if_splits)

lemma perform_InrE:
  assumes "perform env a s = (Inr x, s')"
  obtains p w where "page s = Some p" "s' = s\<lparr>world := w, trace := trace s @ [Act a]\<rparr>"
  using assms by (auto simp: perform_def split: option.splits elim: call_InrE)

lemma goto_InrE:
  assumes "goto env u wu s = (Inr x, s')"
  obtains p w where "page s = Some p"
    "s' = s\<lparr>world := w, trace := trace s @ [Act (Goto u wu (timeout s))]\<rparr>"
  using assms by (auto simp: goto_def elim: perform_InrE)

lemma delay_InrE:
  assumes "delay env ms s = (Inr x, s')"
  obtains w where "s' = s\<lparr>world := w, trace := trace s @ [Act (Delay ms)]\<rparr>"
  using assms by (auto simp: delay_def)

lemma observe_InrE:
  assumes "observe env a s = (Inr d, s')"
  obtains p w where "page s = Some p" "d = domOf env p w"
    "s' = s\<lparr>world := w, trace := trace s @ [Act a, Obs d]\<rparr>"
  using assms by (auto simp: observe_def Let_def elim!: bnd_InrE perform_InrE)

lemma evaluate_InrE:
  assumes "evaluate env s = (Inr d, s')"
  obtains p w where "page s = Some p" "d = domOf env p w"
    "s' = s\<lparr>world := w, trace := trace s @ [Act Evaluate, Obs d]\<rparr>"
  using assms unfolding evaluate_def by (rule observe_InrE)

lemma followOutcome_InrE:
  assumes "followOutcome env u st s = (Inr r, s')"
  obtains "s' = s"
    "r = \<lparr>fr_username = u, fr_status = js st, fr_timestamp = nowISO env (world s)\<rparr>"
  using assms by (auto simp: followOutcome_def)

subsection \<open>The follow-state probe\<close>

lemma followState_Following_iff:
  "followState d = Following \<longleftrightarrow> transparentBg d \<or> list_ex atMenuButton (ariaButtons d)"
  by (simp add: followState_def)

lemma followState_NotFollowing_iff:
  "followState d = NotFollowing \<longleftrightarrow>
     \<not> transparentBg d \<and> \<not> list_ex atMenuButton (ariaButtons d) \<and> followBtn d"
  by (simp add: followState_def)

lemma followState_Unknown_iff:
  "followState d = Unknown \<longleftrightarrow>
     \<not> transparentBg d \<and> \<not> list_ex atMenuButton (ariaButtons d) \<and> \<not> followBtn d"
  by (simp add: followState_def)

lemma followConfirmed_iff:
  "followConfirmed d \<longleftrightarrow> transparentBg d \<or> list_ex atMenuButton (ariaButtons d)"
  by (simp add: followConfirmed_def)

lemma probeFollowState_Inr:
  assumes "probeFollowState env u s = (Inr st, s1)"
  shows "\<exists>d1 d2 p. trace s1 = trace s @ probeTrace s u d1 d2
          \<and> profileExists d1 \<and> followState d2 = st \<and> page s = Some p
          \<and> d2 = domOf env p (world s1) \<and> events s1 = events s \<and> sameSession s s1"
  using assms unfolding probeFollowState_def probeTrace_def sameSession_def
  by (auto elim!: bnd_InrE goto_InrE delay_InrE evaluate_InrE ret_InrE split: if_splits)

lemma followAct_Inr:
  assumes "followAct env u s = (Inr r, s')"
  shows "\<exists>d0 d p. trace s' = trace s @ followActTrace d0 d
          \<and> followConfirmed d \<and> page s = Some p \<and> d = domOf env p (world s')
          \<and> events s' = events s @ [EvUserFollowed r] \<and> sameSession s s'
          \<and> r = \<lparr>fr_username = u, fr_status = js ''followed'',
                   fr_timestamp = nowISO env (world s')\<rparr>"
  using assms unfolding followAct_def followActTrace_def sameSession_def
  by (auto elim!: bnd_InrE perform_InrE delay_InrE evaluate_InrE ret_InrE emit_InrE
       followOutcome_InrE split: if_splits) blast+

lemma followUser_unfold:
  assumes "isReady s" "u \<noteq> []"
  shows "followUser env u s =
     tryCatch (followBody env (stripAt u))
       (\<lambda>err. bnd (emit (EvFollowFailed (stripAt u) err)) (\<lambda>_. throw err)) s"
  using assms by (simp add: followUser_def bnd_def ensureReady_def Let_def)

lemma unfollowUser_unfold:
  assumes "isReady s" "u \<noteq> []"
  shows "unfollowUser env u s =
     tryCatch (unfollowBody env (stripAt u))
       (\<lambda>err. bnd (emit (EvUnfollowFailed (stripAt u) err)) (\<lambda>_. throw err)) s"
  using assms by (simp add: unfollowUser_def bnd_def ensureReady_def Let_def)

lemmas follow_defs = followUser_def followBody_def followAct_def followOutcome_def
  unfollowUser_def unfollowBody_def unfollowAct_def unfollowFlowB_def unfollowTarget_def
  menuChoice_def ensureReady_def stripAt_def probeFollowState_def profileExists_def
  followState_def followConfirmed_def transparentBg_def atMenuButton_def probeTrace_def

lemma tryCatch_InrE:
  assumes "tryCatch m h s = (Inr r, s')"
  obtains "m s = (Inr r, s')" | e s1 where "m s = (Inl e, s1)" "h e s1 = (Inr r, s')"
  using assms by (cases "m s") (auto simp: tryCatch_def split: sum.splits)

lemma rethrow_not_Inr [simp]: "bnd m (\<lambda>_. throw err) s \<noteq> (Inr r, s')"
  by (cases "m s") (auto simp: bnd_def throw_def split: sum.splits)

lemma ensureReady_InrE:
  assumes "ensureReady s = (Inr x, s')"
  obtains "isReady s" "s' = s"
  using assms by (auto simp: ensureReady_def split: if_splits)

lemma sameSession_refl [simp]: "sameSession s s"
  by (simp add: sameSession_def)

lemma sameSession_trans: "sameSession s s1 \<Longrightarrow> sameSession s1 s2 \<Longrightarrow> sameSession s s2"
  by (simp add: sameSession_def)

lemma js_followed_neq [simp]: "js ''followed'' \<noteq> js ''already_following''"
  "js ''already_following'' \<noteq> js ''followed''"
  "js ''unfollowed'' \<noteq> js ''not_following''"
  "js ''not_following'' \<noteq> js ''unfollowed''"
  by (simp_all add: js_def)

lemma followBody_Inr:
  assumes "followBody env u s = (Inr r, s')"
  shows "sameSession s s' \<and>
     ((fr_status r = js ''already_following'' \<and> events s' = events s
        \<and> (\<exists>d1 d2. trace s' = trace s @ probeTrace s u d1 d2 \<and> followState d2 = Following))
      \<or> (fr_status r = js ''followed'' \<and> events s' = events s @ [EvUserFollowed r]
        \<and> (\<exists>d1 d2 d0 d p. trace s' = trace s @ probeTrace s u d1 d2 @ followActTrace d0 d
              \<and> followState d2 = NotFollowing \<and> followConfirmed d
              \<and> page s' = Some p \<and> d = domOf env p (world s'))))"
proof -
  from assms obtain st s1 where
    p: "probeFollowState env u s = (Inr st, s1)" and
    k: "(if st = Following then followOutcome env u ''already_following''
         else if st = Unknown then throw (Error (js ''Could not detect follow button for @'' @ u))
         else followAct env u) s1 = (Inr r, s')"
    unfolding followBody_def by (erule bnd_InrE)
  from probeFollowState_Inr [OF p] obtain d1 d2 p0 where
    P: "trace s1 = trace s @ probeTrace s u d1 d2" "followState d2 = st" "page s = Some p0"
       "events s1 = events s" "sameSession s s1"
    by blast
  show ?thesis
  proof (cases st)
    case Following
    with k have "s' = s1" "fr_status r = js ''already_following''"
      by (auto elim: followOutcome_InrE)
    with P Following show ?thesis by auto
  next
    case Unknown
    with k show ?thesis by simp
  next
    case NotFollowing
    with k have "followAct env u s1 = (Inr r, s')" by simp
    from followAct_Inr [OF this] obtain d0 d p where
      A: "trace s' = trace s1 @ followActTrace d0 d" "followConfirmed d" "page s1 = Some p"
         "d = domOf env p (world s')" "events s' = events s1 @ [EvUserFollowed r]"
         "sameSession s1 s'" "fr_status r = js ''followed''"
      by auto
    from A(3,6) have pg: "page s' = Some p" by (simp add: sameSession_def)
    from P A NotFollowing pg sameSession_trans [OF P(5) A(6)] show ?thesis
      by auto
  qed
qed

lemma followUser_Inr:
  assumes "followUser env u s = (Inr r, s')"
  shows "isReady s \<and> u \<noteq> [] \<and> followBody env (stripAt u) s = (Inr r, s')"
  using assms unfolding followUser_def
  by (auto elim!: bnd_InrE ensureReady_InrE tryCatch_InrE simp: Let_def split: if_splits)

subsection \<open>One iteration of the scroll loop\<close>

text \<open>
  A property of every run of the loop follows from its eight ways through one
  iteration: the six exits and the two continuations.
\<close>

lemma scrollLoop_rule [consumes 1, case_names Done EvalFail Reached Stalled ScrollFail Blocked Retry Next]:
  assumes run: "scrollLoop env t m r0 s = (res, s')"
    and base: "\<And>m r0 s. \<not> int (length m) < t \<Longrightarrow> P m r0 s (Inr (m, False)) s"
    and evalFail: "\<And>m r0 s e s1. int (length m) < t \<Longrightarrow> evaluate env s = (Inl e, s1)
        \<Longrightarrow> P m r0 s (Inl e) s1"
    and reached: "\<And>m r0 s d s1 m' nf. int (length m) < t \<Longrightarrow> evaluate env s = (Inr d, s1)
        \<Longrightarrow> mergeVisible t (visibleComments d) m 0 = (m', nf) \<Longrightarrow> t \<le> int (length m')
        \<Longrightarrow> P m r0 s (Inr (m', False)) s1"
    and stalled: "\<And>m r0 s d s1 m' nf. int (length m) < t \<Longrightarrow> evaluate env s = (Inr d, s1)
        \<Longrightarrow> mergeVisible t (visibleComments d) m 0 = (m', nf) \<Longrightarrow> \<not> t \<le> int (length m')
        \<Longrightarrow> nf = 0 \<Longrightarrow> 5 \<le> r0 + 1
        \<Longrightarrow> P m r0 s (Inr (m', True)) s1"
    and scrollFail: "\<And>m r0 s d s1 m' nf e s2. int (length m) < t
        \<Longrightarrow> evaluate env s = (Inr d, s1)
        \<Longrightarrow> mergeVisible t (visibleComments d) m 0 = (m', nf) \<Longrightarrow> \<not> t \<le> int (length m')
        \<Longrightarrow> \<not> (nf = 0 \<and> 5 \<le> r0 + 1) \<Longrightarrow> scrollStep env s1 = (Inl e, s2)
        \<Longrightarrow> P m r0 s (Inl e) s2"
    and blocked: "\<And>m r0 s d s1 m' nf h s2. int (length m) < t
        \<Longrightarrow> evaluate env s = (Inr d, s1)
        \<Longrightarrow> mergeVisible t (visibleComments d) m 0 = (m', nf) \<Longrightarrow> \<not> t \<le> int (length m')
        \<Longrightarrow> \<not> (nf = 0 \<and> 5 \<le> r0 + 1) \<Longrightarrow> scrollStep env s1 = (Inr (h, h), s2)
        \<Longrightarrow> 5 \<le> (if nf = 0 then r0 + 1 else 0) + 1
        \<Longrightarrow> P m r0 s (Inr (m', True)) s2"
    and retry: "\<And>m r0 s d s1 m' nf h s2 res s'. int (length m) < t
        \<Longrightarrow> evaluate env s = (Inr d, s1)
        \<Longrightarrow> mergeVisible t (visibleComments d) m 0 = (m', nf) \<Longrightarrow> \<not> t \<le> int (length m')
        \<Longrightarrow> \<not> (nf = 0 \<and> 5 \<le> r0 + 1) \<Longrightarrow> scrollStep env s1 = (Inr (h, h), s2)
        \<Longrightarrow> \<not> 5 \<le> (if nf = 0 then r0 + 1 else 0) + 1
        \<Longrightarrow> P m' ((if nf = 0 then r0 + 1 else 0) + 1) (snd (delay env 1000 s2)) res s'
        \<Longrightarrow> P m r0 s res s'"
    and "next": "\<And>m r0 s d s1 m' nf prev new s2 res s'. int (length m) < t
        \<Longrightarrow> evaluate env s = (Inr d, s1)
        \<Longrightarrow> mergeVisible t (visibleComments d) m 0 = (m', nf) \<Longrightarrow> \<not> t \<le> int (length m')
        \<Longrightarrow> \<not> (nf = 0 \<and> 5 \<le> r0 + 1) \<Longrightarrow> scrollStep env s1 = (Inr (prev, new), s2)
        \<Longrightarrow> new \<noteq> prev
        \<Longrightarrow> P m' (if nf = 0 then r0 + 1 else 0) s2 res s'
        \<Longrightarrow> P m r0 s res s'"
  shows "P m r0 s res s'"
  using assms
proof (induction env t m r0 s rule: scrollLoop.induct)
  case (1 env t m r0 s)
  note run = "1.prems"(1) and base = "1.prems"(2) and evalFail = "1.prems"(3)
    and reached = "1.prems"(4) and stalled = "1.prems"(5) and scrollFail = "1.prems"(6)
    and blocked = "1.prems"(7) and retry = "1.prems"(8) and "next" = "1.prems"(9)
  show ?case
  proof (cases "int (length m) < t")
    case False
    with run base [OF False, of r0 s] show ?thesis by (simp add: scrollLoop.simps)
  next
    case True
    obtain r1 s1 where u: "evaluate env s = (r1, s1)" by (cases "evaluate env s")
    show ?thesis
    proof (cases r1)
      case (Inl e)
      with run True u evalFail [OF True, of s e s1 r0] show ?thesis by (simp add: scrollLoop.simps)
    next
      case (Inr d)
      obtain m' nf where mv: "mergeVisible t (visibleComments d) m 0 = (m', nf)"
        by (cases "mergeVisible t (visibleComments d) m 0")
      note ev = u [unfolded Inr]
      show ?thesis
      proof (cases "t \<le> int (length m')")
        case r: True
        with run True ev mv reached [OF True ev mv r, of r0] show ?thesis by (simp add: scrollLoop.simps)
      next
        case g1: False
        show ?thesis
        proof (cases "nf = 0 \<and> 5 \<le> r0 + 1")
          case st: True
          with run True ev mv g1 stalled [OF True ev mv g1, of r0] show ?thesis by (simp add: scrollLoop.simps)
        next
          case g2: False
          obtain r2 s2 where v: "scrollStep env s1 = (r2, s2)" by (cases "scrollStep env s1")
          show ?thesis
          proof (cases r2)
            case (Inl e)
            with run True ev mv g1 g2 v scrollFail [OF True ev mv g1 g2, of e s2]
            show ?thesis by (auto simp: scrollLoop.simps split: if_splits)
          next
            case Inr2: (Inr hs)
            obtain prev new where hs: "hs = (prev, new)" by (cases hs)
            note sc = v [unfolded Inr2 hs]
            define r1' where "r1' = (if nf = 0 then r0 + 1 else 0)"
            show ?thesis
            proof (cases "new = prev")
              case same: True
              show ?thesis
              proof (cases "5 \<le> r1' + 1")
                case b: True
                with run True ev mv g1 g2 sc same r1'_def
                  blocked [OF True ev mv g1 g2 sc [unfolded same]]
                show ?thesis by (auto simp: scrollLoop.simps Let_def split: if_splits)
              next
                case nb: False
                with run True ev mv g1 g2 sc same r1'_def
                have k: "scrollLoop env t m' (r1' + 1) (snd (delay env 1000 s2)) = (res, s')"
                  by (auto simp: scrollLoop.simps Let_def split: if_splits)
                have "P m' (r1' + 1) (snd (delay env 1000 s2)) res s'"
                  by (rule "1.IH"(1) [OF True u [symmetric] Inr mv [symmetric] g1 g2
                    v [symmetric] Inr2 hs [symmetric] r1'_def same nb k])
                     (fact base evalFail reached stalled scrollFail blocked retry "next")+
                from retry [OF True ev mv g1 g2 sc [unfolded same] nb [unfolded r1'_def]
                    this [unfolded r1'_def]]
                show ?thesis .
              qed
            next
              case diff: False
              with run True ev mv g1 g2 sc r1'_def
              have k: "scrollLoop env t m' r1' s2 = (res, s')"
                by (auto simp: scrollLoop.simps Let_def split: if_splits)
              have "P m' r1' s2 res s'"
                by (rule "1.IH"(2) [OF True u [symmetric] Inr mv [symmetric] g1 g2
                  v [symmetric] Inr2 hs [symmetric] r1'_def diff k])
                   (fact base evalFail reached stalled scrollFail blocked retry "next")+
              from "next" [OF True ev mv g1 g2 sc diff this [unfolded r1'_def]]
              show ?thesis .
            qed
          qed
        qed
      qed
    qed
  qed
qed

subsection \<open>Every navigation carries the session's timeout\<close>

lemma navBudgetI:
  assumes "\<And>s r s'. m s = (r, s') \<Longrightarrow>
     timeout s' = timeout s \<and> (\<exists>tr. trace s' = trace s @ tr \<and> list_all (budgetOk (timeout s)) tr)"
  shows "navBudget m"
  using assms unfolding navBudget_def by blast

lemma navBudgetD:
  assumes "navBudget m" "m s = (r, s')"
  shows "timeout s' = timeout s"
    and "\<exists>tr. trace s' = trace s @ tr \<and> list_all (budgetOk (timeout s)) tr"
  using assms unfolding navBudget_def by blast+

lemma navBudget_same:
  assumes "\<And>s r s'. m s = (r, s') \<Longrightarrow> timeout s' = timeout s \<and> trace s' = trace s"
  shows "navBudget m"
  by (rule navBudgetI) (use assms in force)

lemma navBudget_one:
  assumes "\<And>s r s'. m s = (r, s') \<Longrightarrow>
     timeout s' = timeout s \<and> (trace s' = trace s \<or> (\<exists>x. trace s' = trace s @ [x] \<and> budgetOk (timeout s) x))"
  shows "navBudget m"
proof (rule navBudgetI)
  fix s r s' assume "m s = (r, s')"
  from assms [OF this] show "timeout s' = timeout s \<and>
     (\<exists>tr. trace s' = trace s @ tr \<and> list_all (budgetOk (timeout s)) tr)"
    by (elim conjE disjE exE) (auto intro: exI [of _ "[]"] exI [of _ "[x]" for x])
qed

lemma navBudget_ret [intro!, simp]: "navBudget (ret x)"
  by (rule navBudget_same) (auto simp: ret_def)

lemma navBudget_throw [intro!, simp]: "navBudget (throw e)"
  by (rule navBudget_same) (auto simp: throw_def)

lemma navBudget_get [intro!, simp]: "navBudget (get f)"
  by (rule navBudget_same) (auto simp: get_def)

lemma navBudget_emit [intro!, simp]: "navBudget (emit ev)"
  by (rule navBudget_same) (auto simp: emit_def)

lemma navBudget_ensureReady [intro!, simp]: "navBudget ensureReady"
  by (rule navBudget_same) (auto simp: ensureReady_def split: if_splits)

lemma navBudget_log [intro!, simp]: "navBudget (log (Enter n))"
  by (rule navBudget_one) (auto simp: log_def budgetOk_def)

lemma navBudget_bnd [intro!]:
  assumes "navBudget m" "\<And>x. navBudget (f x)"
  shows "navBudget (bnd m f)"
proof (rule navBudgetI)
  fix s r s' assume h: "bnd m f s = (r, s')"
  obtain r1 s1 where m: "m s = (r1, s1)" by (cases "m s")
  from navBudgetD [OF assms(1) m] obtain tr1 where
    t1: "timeout s1 = timeout s" "trace s1 = trace s @ tr1" "list_all (budgetOk (timeout s)) tr1"
    by blast
  show "timeout s' = timeout s \<and>
     (\<exists>tr. trace s' = trace s @ tr \<and> list_all (budgetOk (timeout s)) tr)"
  proof (cases r1)
    case (Inl e)
    with h m have "s' = s1" by (simp add: bnd_def)
    with t1 show ?thesis by blast
  next
    case (Inr x)
    with h m have "f x s1 = (r, s')" by (simp add: bnd_def)
    from navBudgetD [OF assms(2) this] t1 show ?thesis by auto
  qed
qed

lemma navBudget_tryCatch [intro!]:
  assumes "navBudget m" "\<And>e. navBudget (h e)"
  shows "navBudget (tryCatch m h)"
proof (rule navBudgetI)
  fix s r s' assume h: "tryCatch m h s = (r, s')"
  obtain r1 s1 where m: "m s = (r1, s1)" by (cases "m s")
  from navBudgetD [OF assms(1) m] obtain tr1 where
    t1: "timeout s1 = timeout s" "trace s1 = trace s @ tr1" "list_all (budgetOk (timeout s)) tr1"
    by blast
  show "timeout s' = timeout s \<and>
     (\<exists>tr. trace s' = trace s @ tr \<and> list_all (budgetOk (timeout s)) tr)"
  proof (cases r1)
    case (Inr x)
    with h m have "s' = s1" by (simp add: tryCatch_def)
    with t1 show ?thesis by blast
  next
    case (Inl e)
    with h m have "h e s1 = (r, s')" by (simp add: tryCatch_def)
    from navBudgetD [OF assms(2) this] t1 show ?thesis by auto
  qed
qed

lemma navBudget_swallow [intro!]:
  assumes "navBudget m"
  shows "navBudget (swallow m)"
proof (rule navBudgetI)
  fix s r s' assume h: "swallow m s = (r, s')"
  then have "m s = (fst (m s), s')" by (cases "m s") (simp add: swallow_def)
  from navBudgetD [OF assms this] show "timeout s' = timeout s \<and>
     (\<exists>tr. trace s' = trace s @ tr \<and> list_all (budgetOk (timeout s)) tr)" by blast
qed

lemma navBudget_if [intro!]:
  assumes "c \<Longrightarrow> navBudget a" "\<not> c \<Longrightarrow> navBudget b"
  shows "navBudget (if c then a else b)"
  using assms by simp

definition notGoto :: "action \<Rightarrow> bool" where
  "notGoto a = (case a of Goto u wu t \<Rightarrow> False | _ \<Rightarrow> True)"

lemma budgetOk_notGoto: "notGoto a \<Longrightarrow> budgetOk t (Act a)"
  by (cases a) (auto simp: notGoto_def budgetOk_def)

lemma navBudget_call [intro!]: "notGoto a \<Longrightarrow> navBudget (call env rcv a)"
  by (rule navBudget_one)
     (auto simp: call_def Let_def budgetOk_notGoto split: prod.splits if_splits)

lemma navBudget_perform [intro!]: "notGoto a \<Longrightarrow> navBudget (perform env a)"
  by (rule navBudget_one)
     (auto simp: perform_def call_def Let_def budgetOk_notGoto split: prod.splits if_splits option.splits)

lemma navBudget_listen [intro!]: "notGoto a \<Longrightarrow> navBudget (listen env a)"
  by (rule navBudget_one)
     (auto simp: listen_def Let_def budgetOk_notGoto split: prod.splits if_splits option.splits)

lemma navBudget_onBrowser [intro!]: "notGoto a \<Longrightarrow> navBudget (onBrowser env a)"
  by (rule navBudget_one)
     (auto simp: onBrowser_def call_def Let_def budgetOk_notGoto split: prod.splits if_splits option.splits)

lemma navBudget_delay [intro!, simp]: "navBudget (delay env ms)"
  by (rule navBudget_one) (auto simp: delay_def budgetOk_def)

lemma navBudget_goto [intro!, simp]: "navBudget (goto env u wu)"
  by (rule navBudget_one)
     (auto simp: goto_def perform_def call_def Let_def budgetOk_def split: prod.splits if_splits option.splits)

lemma navBudget_obs: "navBudget (\<lambda>s. (Inr (f s), s\<lparr>trace := trace s @ [Obs (f s)]\<rparr>))"
  by (rule navBudget_one) (auto simp: budgetOk_def)

lemma navBudget_observe [intro!]: "notGoto a \<Longrightarrow> navBudget (observe env a)"
  unfolding observe_def Let_def
  by (intro navBudget_bnd navBudget_perform navBudget_obs)

lemma navBudget_evaluate [intro!, simp]: "navBudget (evaluate env)"
  unfolding evaluate_def by (rule navBudget_observe) (simp add: notGoto_def)

lemma navBudget_url: "navBudget (\<lambda>s. (Inr (f s), s\<lparr>trace := trace s @ [UrlRead (f s)]\<rparr>))"
  by (rule navBudget_one) (auto simp: budgetOk_def)

lemma navBudget_readUrl [intro!, simp]: "navBudget (readUrl env)"
  unfolding readUrl_def Let_def
  by (intro navBudget_bnd navBudget_perform navBudget_url) (simp add: notGoto_def)

lemma navBudget_waitFor [intro!, simp]: "navBudget (waitFor env sel t)"
  unfolding waitFor_def by (auto simp: notGoto_def)

lemma notGoto_simps [simp]:
  "notGoto (Click t)" "notGoto (ClickSel sel)" "notGoto (TypeSel sel c n)"
  "notGoto (HandleClick sel i)" "notGoto (HandleType sel i c n)" "notGoto (Upload sel i f)"
  "notGoto (ScrollBy k)" "notGoto (KeyDown k1)" "notGoto (KeyPress k1)" "notGoto (KeyUp k1)"
  "notGoto OnDialog" "notGoto OffDialog" "notGoto OnceDialog" "notGoto (Query sel)"
  "notGoto Evaluate" "notGoto ReadUrl" "notGoto (WaitForSelector sel n)"
  "notGoto (Launch h e)" "notGoto NewPage" "notGoto Pages" "notGoto CloseBrowser"
  "notGoto CheckForUpdates" "notGoto SetUserAgent" "notGoto HideWebdriver"
  "notGoto (SetCookie cs)" "notGoto (Delay n)"
  by (simp_all add: notGoto_def)

lemma navBudget_probeFollowState [intro!, simp]: "navBudget (probeFollowState env u)"
  unfolding probeFollowState_def by auto

lemma navBudget_followOutcome [intro!, simp]: "navBudget (followOutcome env u st)"
  by (rule navBudget_same) (auto simp: followOutcome_def)

lemma navBudget_followUser: "navBudget (followUser env u)"
  unfolding followUser_def followBody_def followAct_def Let_def by auto

lemma navBudget_unfollowUser: "navBudget (unfollowUser env u)"
  unfolding unfollowUser_def unfollowBody_def unfollowAct_def unfollowFlowB_def Let_def
  by (auto split: option.split)

lemma navBudget_update:
  assumes "\<And>s. timeout (f s) = timeout s" "\<And>s. trace (f s) = trace s"
  shows "navBudget (\<lambda>s. (Inr x, f s))"
  by (rule navBudget_same) (auto simp: assms)

lemma navBudget_case_option [intro!]:
  assumes "x = None \<Longrightarrow> navBudget a" "\<And>y. x = Some y \<Longrightarrow> navBudget (b y)"
  shows "navBudget (case x of None \<Rightarrow> a | Some y \<Rightarrow> b y)"
  using assms by (cases x) auto

lemma navBudget_dismissCompose [intro!, simp]: "navBudget (dismissCompose env)"
  unfolding dismissCompose_def by auto

lemma navBudget_uploadAll [intro!, simp]: "navBudget (uploadAll env fs)"
proof (induction fs)
  case Nil
  show ?case by (rule navBudget_same) auto
next
  case (Cons f fs)
  let ?fp = "if \<not> isAbsolute env f then resolvePath env f else f"
  let ?up = "bnd (perform env (Upload ComposeFileInputSel 0 ?fp)) (\<lambda>_. delay env 2500)"
  have up: "navBudget ?up" by auto
  have off: "navBudget (bnd (listen env OffDialog) (\<lambda>_. throw e))" for e :: error
    by auto
  show ?case
  proof (rule navBudgetI)
    fix s r s' assume h: "uploadAll env (f # fs) s = (r, s')"
    show "timeout s' = timeout s \<and>
       (\<exists>tr. trace s' = trace s @ tr \<and> list_all (budgetOk (timeout s)) tr)"
    proof (cases "existsSync env (world s) ?fp")
      case False
      with h have "bnd (listen env OffDialog)
             (\<lambda>_. throw (Error (js ''File not found: '' @ ?fp))) s = (r, s')"
        by (simp add: Let_def)
      from navBudgetD [OF off this] show ?thesis by blast
    next
      case True
      obtain r1 s1 where u: "?up s = (r1, s1)" by (cases "?up s")
      from navBudgetD [OF up u] obtain tr1 where
        t1: "timeout s1 = timeout s" "trace s1 = trace s @ tr1"
            "list_all (budgetOk (timeout s)) tr1" by blast
      show ?thesis
      proof (cases r1)
        case (Inl e)
        with h True u have "s' = s1" by (simp add: Let_def)
        with t1 show ?thesis by blast
      next
        case (Inr x)
        show ?thesis
        proof (cases "page s1")
          case None
          with h True u Inr have "s' = s1" by (simp add: Let_def)
          with t1 show ?thesis by blast
        next
          case (Some p)
          show ?thesis
          proof (cases "dialogSeen env p (world s1)")
            case True
            with h \<open>existsSync env (world s) ?fp\<close> u Inr Some
            have "bnd (listen env OffDialog)
                         (\<lambda>_. throw (Error (js
                            ''Media upload failed - file may be unsupported or too large''))) s1
                  = (r, s')"
              by (simp add: Let_def)
            from navBudgetD [OF off this] t1 show ?thesis by auto
          next
            case False
            with h \<open>existsSync env (world s) ?fp\<close> u Inr Some
            have "uploadAll env fs s1 = (r, s')" by (simp add: Let_def)
            from navBudgetD [OF Cons this] t1 show ?thesis by auto
          qed
        qed
      qed
    qed
  qed
qed

lemma navBudget_uploadMedia [intro!, simp]: "navBudget (uploadMedia env media)"
  unfolding uploadMedia_def by auto

lemma pollCompose_budget:
  "pollCompose env pt el s = (r, s') \<Longrightarrow>
     timeout s' = timeout s \<and> (\<exists>tr. trace s' = trace s @ tr \<and> list_all (budgetOk (timeout s)) tr)"
proof (induction env pt el s rule: pollCompose.induct)
  case (1 env pt el s)
  let ?st = "bnd (delay env 500) (\<lambda>_. evaluate env)"
  have st: "navBudget ?st" by auto
  show ?case
  proof (cases "el < pt")
    case False
    with "1.prems" show ?thesis by (simp add: pollCompose.simps)
  next
    case True
    obtain r1 s1 where u: "?st s = (r1, s1)" by (cases "?st s")
    from navBudgetD [OF st u] obtain tr1 where
      t1: "timeout s1 = timeout s" "trace s1 = trace s @ tr1"
          "list_all (budgetOk (timeout s)) tr1" by blast
    show ?thesis
    proof (cases r1)
      case (Inl e)
      with "1.prems" True u have "s' = s1" by (simp add: pollCompose.simps)
      with t1 show ?thesis by blast
    next
      case (Inr d)
      show ?thesis
      proof (cases "js_includes (href d) (js ''/compose'')")
        case False
        with "1.prems" True u Inr have "s' = s1" by (simp add: pollCompose.simps)
        with t1 show ?thesis by blast
      next
        case c: True
        with "1.prems" True u Inr have k: "pollCompose env pt (el + 500) s1 = (r, s')" by (simp add: pollCompose.simps)
        from "1.IH" [OF True u [symmetric] Inr _ k] c t1 show ?thesis by auto
      qed
    qed
  qed
qed

lemma navBudget_pollCompose [intro!, simp]: "navBudget (pollCompose env pt el)"
  by (rule navBudgetI) (rule pollCompose_budget)

lemma navBudget_composeTweet [intro!, simp]: "navBudget (composeTweet env c)"
  unfolding composeTweet_def by auto

lemma navBudget_submitTweet [intro!, simp]: "navBudget (submitTweet env hm)"
  unfolding submitTweet_def by auto

lemma navBudget_confirmTweet [intro!, simp]: "navBudget (confirmTweet env c hm)"
  unfolding confirmTweet_def Let_def by auto

lemma navBudget_postTweetBody [intro!, simp]: "navBudget (postTweetBody env c media)"
  unfolding postTweetBody_def by auto

lemma adoptPage_budget:
  "adoptPage env ps s = (b, s') \<Longrightarrow>
     timeout s' = timeout s \<and> (\<exists>tr. trace s' = trace s @ tr \<and> list_all (budgetOk (timeout s)) tr)"
proof (induction ps arbitrary: s)
  case Nil
  then show ?case by simp
next
  case (Cons p ps)
  have c: "navBudget (call env (Some p) ReadUrl)" by auto
  let ?nav = "bnd (listen env OnceDialog) (\<lambda>_. goto env (js ''https://x.com/home'') DomContentLoaded)"
  have n: "navBudget ?nav" by auto
  obtain r1 s1 where u: "call env (Some p) ReadUrl s = (r1, s1)"
    by (cases "call env (Some p) ReadUrl s")
  from navBudgetD [OF c u] obtain tr1 where
    t1: "timeout s1 = timeout s" "trace s1 = trace s @ tr1"
        "list_all (budgetOk (timeout s)) tr1" by blast
  show ?case
  proof (cases r1)
    case (Inl e)
    with Cons.prems u have "adoptPage env ps s1 = (b, s')" by simp
    from Cons.IH [OF this] t1 show ?thesis by auto
  next
    case (Inr x)
    obtain r2 s2 where v: "?nav (s1\<lparr>page := Some p\<rparr>) = (r2, s2)"
      by (cases "?nav (s1\<lparr>page := Some p\<rparr>)")
    from navBudgetD [OF n v] t1 obtain tr2 where
      t2: "timeout s2 = timeout s" "trace s2 = trace s @ tr2"
          "list_all (budgetOk (timeout s)) tr2" by auto
    show ?thesis
    proof (cases r2)
      case (Inl e)
      with Cons.prems u Inr v have "adoptPage env ps s2 = (b, s')" by simp
      from Cons.IH [OF this] t2 show ?thesis by auto
    next
      case Inr2: (Inr y)
      with Cons.prems u Inr v have "s' = s2" by simp
      with t2 show ?thesis by blast
    qed
  qed
qed

lemma navBudget_adoptPage:
  "navBudget (\<lambda>s. case adoptPage env (f s) s of (recovered, s') \<Rightarrow> (Inr recovered, s'))"
  by (rule navBudgetI) (auto split: prod.splits dest: adoptPage_budget)

lemma navBudget_openPage [intro!, simp]: "navBudget (openPage env)"
  unfolding openPage_def
  by (intro navBudget_bnd navBudget_onBrowser navBudget_perform navBudget_update) simp_all

lemma navBudget_setCookies [intro!, simp]: "navBudget (setCookies env)"
  by (rule navBudgetI)
     (use navBudgetD [OF navBudget_perform [of "SetCookie cs" for cs]] in
       \<open>auto simp: setCookies_def\<close>)

lemma navBudget_recoverPage [intro!, simp]: "navBudget (recoverPage env)"
  unfolding recoverPage_def
  by (intro navBudget_bnd navBudget_tryCatch navBudget_adoptPage navBudget_if) auto

lemma navBudget_postTweet: "navBudget (postTweet env c media)"
  unfolding postTweet_def by auto

lemma navBudget_getTweetStats: "navBudget (getTweetStats env i)"
  unfolding getTweetStats_def by auto

lemma scrollStep_budget [intro!, simp]: "navBudget (scrollStep env)"
  unfolding scrollStep_def by auto

lemma scrollLoop_budget:
  assumes "scrollLoop env t m r0 s = (r, s')"
  shows "timeout s' = timeout s
       \<and> (\<exists>tr. trace s' = trace s @ tr \<and> list_all (budgetOk (timeout s)) tr)"
  using assms
proof (induction rule: scrollLoop_rule)
  case (Done m r0 s)
  show ?case by simp
next
  case (EvalFail m r0 s e s1)
  from navBudgetD [OF navBudget_evaluate this(2)] show ?case by blast
next
  case (Reached m r0 s d s1 m' nf)
  from navBudgetD [OF navBudget_evaluate this(2)] show ?case by blast
next
  case (Stalled m r0 s d s1 m' nf)
  from navBudgetD [OF navBudget_evaluate this(2)] show ?case by blast
next
  case (ScrollFail m r0 s d s1 m' nf e s2)
  from navBudgetD [OF navBudget_evaluate this(2)] navBudgetD [OF scrollStep_budget this(6)]
  show ?case by auto
next
  case (Blocked m r0 s d s1 m' nf h s2)
  from navBudgetD [OF navBudget_evaluate this(2)] navBudgetD [OF scrollStep_budget this(6)]
  show ?case by auto
next
  case (Retry m r0 s d s1 m' nf h s2 res s')
  have d: "delay env 1000 s2 = (fst (delay env 1000 s2), snd (delay env 1000 s2))" by simp
  from navBudgetD [OF navBudget_evaluate Retry(2)] navBudgetD [OF scrollStep_budget Retry(6)]
    navBudgetD [OF navBudget_delay d] Retry(8)
  show ?case by auto
next
  case (Next m r0 s d s1 m' nf prev new s2 res s')
  from navBudgetD [OF navBudget_evaluate Next(2)] navBudgetD [OF scrollStep_budget Next(6)] Next(8)
  show ?case by auto
qed

lemma navBudget_case_prod [intro!]:
  assumes "\<And>a b. x = (a, b) \<Longrightarrow> navBudget (f a b)"
  shows "navBudget (case x of (a, b) \<Rightarrow> f a b)"
  using assms by (cases x) auto

lemma navBudget_scrollLoop [intro!, simp]: "navBudget (scrollLoop env t m r0)"
  by (rule navBudgetI) (rule scrollLoop_budget)

lemma navBudget_getTweetComments: "navBudget (getTweetComments env i c)"
  unfolding getTweetComments_def Let_def by auto

lemma likeEach_budget:
  "likeEach env is n s = (k, s') \<Longrightarrow>
     timeout s' = timeout s \<and> (\<exists>tr. trace s' = trace s @ tr \<and> list_all (budgetOk (timeout s)) tr)"
proof (induction "is" arbitrary: n s)
  case Nil
  then show ?case by simp
next
  case (Cons i "is")
  have c: "navBudget (perform env (HandleClick LikeSel i))" by auto
  obtain r1 s1 where u: "perform env (HandleClick LikeSel i) s = (r1, s1)"
    by (cases "perform env (HandleClick LikeSel i) s")
  from navBudgetD [OF c u] obtain tr1 where
    t1: "timeout s1 = timeout s" "trace s1 = trace s @ tr1"
        "list_all (budgetOk (timeout s)) tr1" by blast
  show ?case
  proof (cases r1)
    case (Inl e)
    with Cons.prems u have "likeEach env is n s1 = (k, s')" by simp
    from Cons.IH [OF this] t1 show ?thesis by auto
  next
    case (Inr x)
    let ?d = "delay env (1000 + jitter env (world s1)) s1"
    have d: "?d = (fst ?d, snd ?d)" by simp
    from navBudgetD [OF navBudget_delay d] t1 obtain tr2 where
      t2: "timeout (snd ?d) = timeout s" "trace (snd ?d) = trace s @ tr2"
          "list_all (budgetOk (timeout s)) tr2" by auto
    from Cons.prems u Inr have "likeEach env is (n + 1) (snd ?d) = (k, s')" by simp
    from Cons.IH [OF this] t2 show ?thesis by auto
  qed
qed

lemma navBudget_likeEach:
  "navBudget (\<lambda>s. case likeEach env is 0 s of (liked, s') \<Rightarrow> (Inr liked, s'))"
  by (rule navBudgetI) (auto split: prod.splits dest: likeEach_budget)

lemma navBudget_searchAndLike: "navBudget (searchAndLike env q c)"
  unfolding searchAndLike_def Let_def
  by (intro navBudget_bnd navBudget_if navBudget_likeEach) auto

lemma navBudget_clickTestId [intro!, simp]: "navBudget (clickTestId env t)"
  unfolding clickTestId_def by auto

lemma navBudget_fillProfileField [intro!, simp]: "navBudget (fillProfileField env sel v)"
  unfolding fillProfileField_def by auto

lemma navBudget_uploadImage [intro!, simp]: "navBudget (uploadImage env f n)"
  unfolding uploadImage_def by auto

lemma navBudget_fillOptional [intro!, simp]: "navBudget (fillOptional env sel f)"
  unfolding fillOptional_def by auto

lemma navBudget_validateImage [intro!, simp]: "navBudget (validateImage env l f)"
  by (rule navBudget_same) (auto simp: validateImage_def split: if_splits)

lemma navBudget_setupProfile: "navBudget (setupProfile env opts)"
  unfolding setupProfile_def setupProfileBody_def Let_def by auto

lemma navBudget_setReady [intro!, simp]: "navBudget (setReady b)"
  by (rule navBudget_same) (auto simp: setReady_def)

lemma navBudget_launch:
  "navBudget (\<lambda>s. call env None (Launch (headless s) (executablePath env (world s))) s)"
  by (rule navBudgetI)
     (use navBudgetD [OF navBudget_call [of "Launch h e" for h e]] in auto)

lemma navBudget_initBody [intro!, simp]: "navBudget (initBody env)"
  unfolding initBody_def launchAndNavigate_def verifyAuth_def
  by (intro navBudget_bnd navBudget_launch navBudget_if navBudget_update) auto

lemma navBudget_checkForUpdates:
  "navBudget (\<lambda>s. (Inr (), s\<lparr>trace := trace s @ [Act CheckForUpdates]\<rparr>))"
  by (rule navBudget_one) (auto simp: budgetOk_def)

lemma navBudget_init: "navBudget (init env)"
proof -
  have "navBudget (bnd (\<lambda>s. (Inr (), s\<lparr>trace := trace s @ [Act CheckForUpdates]\<rparr>))
          (\<lambda>_. tryCatch (initBody env) (\<lambda>err. emit (EvError err))))"
    by (intro navBudget_bnd navBudget_checkForUpdates navBudget_tryCatch) auto
  from navBudgetD [OF this] show ?thesis
    by (intro navBudgetI) (auto simp: init_def split: if_splits)
qed

lemma navBudget_close: "navBudget (close env)"
proof -
  have "navBudget (bnd (call env None CloseBrowser) (\<lambda>_.
           bnd (\<lambda>s. (Inr (), s\<lparr>browser := False, page := None, isReady := False\<rparr>)) (\<lambda>_.
           emit EvClosed)))"
    by (intro navBudget_bnd navBudget_update navBudget_call) auto
  from navBudgetD [OF this] show ?thesis
    by (intro navBudgetI) (auto simp: close_def split: if_splits)
qed

lemmas init_defs = init_def initBody_def launchAndNavigate_def verifyAuth_def openPage_def setCookies_def onBrowser_def
  buildCookieObjects_def cookieObjectOf_def executablePath_def isLoginUrl_def setReady_def
  readUrl_def waitFor_def newBot_def REQUIRED_COOKIES_def cookieMissing_def demoOptions_def

subsection \<open>Posting: where the trace starts and how a failure leaves\<close>

lemma navBudget_extends:
  assumes "navBudget m"
  shows "\<exists>tr. trace (snd (m s)) = trace s @ tr"
proof -
  have "m s = (fst (m s), snd (m s))" by simp
  from navBudgetD(2) [OF assms this] show ?thesis by blast
qed

lemma bnd_trace_prefix:
  assumes "\<exists>tr. trace (snd (m s)) = trace s @ pre @ tr" and "\<And>x. navBudget (f x)"
  shows "\<exists>tr. trace (snd (bnd m f s)) = trace s @ pre @ tr"
proof (cases "m s")
  case (Pair r1 s1)
  from assms(1) Pair obtain tr1 where t1: "trace s1 = trace s @ pre @ tr1" by auto
  show ?thesis
  proof (cases r1)
    case (Inl e)
    with Pair t1 show ?thesis by (simp add: bnd_def)
  next
    case (Inr x)
    from navBudget_extends [OF assms(2), of x s1] obtain tr2 where
      "trace (snd (f x s1)) = trace s1 @ tr2" by blast
    with Pair Inr t1 show ?thesis by (simp add: bnd_def)
  qed
qed

lemma tryCatch_trace_prefix:
  assumes "\<exists>tr. trace (snd (m s)) = trace s @ pre @ tr" and "\<And>e. navBudget (h e)"
  shows "\<exists>tr. trace (snd (tryCatch m h s)) = trace s @ pre @ tr"
proof (cases "m s")
  case (Pair r1 s1)
  from assms(1) Pair obtain tr1 where t1: "trace s1 = trace s @ pre @ tr1" by auto
  show ?thesis
  proof (cases r1)
    case (Inr x)
    with Pair t1 show ?thesis by (simp add: tryCatch_def)
  next
    case (Inl e)
    from navBudget_extends [OF assms(2), of e s1] obtain tr2 where
      "trace (snd (h e s1)) = trace s1 @ tr2" by blast
    with Pair Inl t1 show ?thesis by (simp add: tryCatch_def)
  qed
qed

lemma log_first:
  assumes "navBudget (f ())"
  shows "\<exists>tr. trace (snd (bnd (log x) f s)) = trace s @ [x] @ tr"
  using navBudget_extends [OF assms, of "s\<lparr>trace := trace s @ [x]\<rparr>"]
  by (simp add: bnd_def log_def)

lemma recoverPage_enters:
  "\<exists>tr. trace (snd (recoverPage env s)) = trace s @ [Enter ''_recoverPage''] @ tr"
  unfolding recoverPage_def
  by (rule log_first)
     (intro navBudget_bnd navBudget_tryCatch navBudget_adoptPage navBudget_if; auto)

lemma composeTweet_starts:
  assumes "page s = Some p"
  shows "\<exists>tr. trace (snd (composeTweet env c s)) =
     trace s @ [Act OnDialog, Act (Goto (js ''https://x.com/compose/post'') NetworkIdle2 (timeout s))] @ tr"
proof -
  define s1 where "s1 = snd (listen env OnDialog s)"
  define s2 where "s2 = snd (goto env (js ''https://x.com/compose/post'') NetworkIdle2 s1)"
  define rest where "rest = (\<lambda>u::unit.
     bnd (delay env 1000) (\<lambda>_.
     bnd (waitFor env TweetTextarea 10000) (\<lambda>primary.
     bnd (if primary then ret True else waitFor env RoleTextbox 5000) (\<lambda>found.
     if \<not> found
     then bnd (listen env OffDialog) (\<lambda>_. throw (Error (js ''Tweet textarea not found'')))
     else bnd (perform env (ClickSel TweetTextarea)) (\<lambda>_.
          bnd (delay env 200) (\<lambda>_.
          bnd (perform env (TypeSel TweetTextarea c 30)) (\<lambda>_.
          delay env 500)))))))"
  have nb: "navBudget (rest x)" for x unfolding rest_def by auto
  have l: "listen env OnDialog s = (Inr (), s1)" "trace s1 = trace s @ [Act OnDialog]"
    "page s1 = Some p" "timeout s1 = timeout s"
    unfolding s1_def using assms by (simp_all add: listen_def)
  have g: "trace s2 = trace s1 @ [Act (Goto (js ''https://x.com/compose/post'') NetworkIdle2 (timeout s))]"
    unfolding s2_def using l(3,4)
    by (simp add: goto_def perform_def call_def Let_def split: prod.splits)
  have "\<exists>tr. trace (snd (goto env (js ''https://x.com/compose/post'') NetworkIdle2 s1)) =
     trace s1 @ [Act (Goto (js ''https://x.com/compose/post'') NetworkIdle2 (timeout s))] @ tr"
    using g unfolding s2_def by simp
  from bnd_trace_prefix [where m = "goto env (js ''https://x.com/compose/post'') NetworkIdle2"
      and s = s1 and f = rest, OF this nb]
  obtain tr where "trace (snd (bnd (goto env (js ''https://x.com/compose/post'') NetworkIdle2) rest s1))
     = trace s1 @ [Act (Goto (js ''https://x.com/compose/post'') NetworkIdle2 (timeout s))] @ tr"
    by blast
  moreover have "composeTweet env c s =
      bnd (goto env (js ''https://x.com/compose/post'') NetworkIdle2) rest s1"
    unfolding composeTweet_def rest_def using l(1) by (simp add: bnd_def)
  ultimately show ?thesis using l(2) by simp
qed

lemma postTweet_unfold:
  assumes "isReady s" "content \<noteq> []" "length content \<le> 280" "length media \<le> 4"
  shows "postTweet env content media s =
     tryCatch (postTweetBody env content media)
            (\<lambda>err. bnd (swallow (recoverPage env)) (\<lambda>_.
                   bnd (emit (EvTweetFailed content err)) (\<lambda>_. throw err))) s"
  using assms by (simp add: postTweet_def bnd_def ensureReady_def)

lemma postTweet_failure:
  assumes "isReady s" "content \<noteq> []" "length content \<le> 280" "length media \<le> 4"
    and "postTweetBody env content media s = (Inl e, s1)"
  shows "postTweet env content media s =
     (Inl e, (snd (recoverPage env s1))\<lparr>events := events (snd (recoverPage env s1))
                                            @ [EvTweetFailed content e]\<rparr>)"
  by (simp add: postTweet_unfold assms tryCatch_def bnd_def swallow_def emit_def throw_def)

lemma postTweet_starts:
  assumes "isReady s" "content \<noteq> []" "length content \<le> 280" "length media \<le> 4"
    and "page s = Some p"
  shows "\<exists>tr. trace (snd (postTweet env content media s)) =
     trace s @ [Act OnDialog, Act (Goto (js ''https://x.com/compose/post'') NetworkIdle2 (timeout s))] @ tr"
  unfolding postTweet_unfold [OF assms(1-4)] postTweetBody_def
  by (intro tryCatch_trace_prefix bnd_trace_prefix composeTweet_starts [OF assms(5)]) auto

lemmas post_defs = postTweet_def postTweetBody_def composeTweet_def uploadMedia_def
  submitTweet_def confirmTweet_def dismissCompose_def recoverPage_def swallow_def
  ensureReady_def waitFor_def readUrl_def onBrowser_def openPage_def setCookies_def
  verifyFeed_def str_or_def pollCompose.simps scanCells.simps

lemmas site_defs = composeSite_def noFilesSite_def notFoundSite_def deadSite_def
  composeDom_def feedDom_def helloArticle_def

subsection \<open>What a success result implies\<close>

lemma fails_throw [simp]: "fails (throw e)"
  by (simp add: fails_def)

lemma fails_bnd [intro]: "(\<And>x. fails (f x)) \<Longrightarrow> fails (bnd m f)"
  unfolding fails_def by (auto elim!: bnd_InrE)

lemma tryCatch_fails_InrE:
  assumes "tryCatch m h s = (Inr r, s')" "\<And>e. fails (h e)"
  shows "m s = (Inr r, s')"
proof (cases "m s")
  case (Pair r1 s1)
  show ?thesis
  proof (cases r1)
    case (Inl e)
    with Pair assms(1) have "h e s1 = (Inr r, s')" by (simp add: tryCatch_def)
    with assms(2) [of e] show ?thesis unfolding fails_def by blast
  next
    case (Inr x)
    with Pair assms(1) show ?thesis by (simp add: tryCatch_def)
  qed
qed

lemma listen_InrE:
  assumes "listen env a s = (Inr x, s')"
  obtains p w where "page s = Some p" "s' = s\<lparr>world := w, trace := trace s @ [Act a]\<rparr>"
  using assms by (auto simp: listen_def split: option.splits)

lemma get_InrD: "get f s = (Inr x, s') \<Longrightarrow> x = f s \<and> s' = s"
  unfolding get_def by (elim Pair_inject) simp

lemma get_InrE:
  assumes "get f s = (Inr x, s')"
  obtains "x = f s" "s' = s"
  using get_InrD [OF assms] that by blast

lemma confirmTweet_Inr:
  assumes "confirmTweet env content hm s = (Inr r, s')"
  shows "\<exists>d. trace s' = trace s @ [Act (Delay (if hm then 5000 else 3000)), Act Evaluate, Obs d,
                                   Act OffDialog]
          \<and> vf_found (verifyFeed content d) \<and> tr_success r \<and> tr_content r = content
          \<and> tr_postId r = vf_postId (verifyFeed content d)
          \<and> events s' = events s @ [EvTweetPosted r]"
  using assms unfolding confirmTweet_def Let_def
  by (auto elim!: bnd_InrE delay_InrE evaluate_InrE listen_InrE get_InrE emit_InrE ret_InrE
        split: if_splits)

lemma navBudget_Inr_extends:
  assumes "navBudget m" "m s = (r, s')"
  shows "\<exists>tr. trace s' = trace s @ tr"
  using navBudgetD(2) [OF assms] by blast

lemma postTweetBody_Inr:
  assumes "postTweetBody env content media s = (Inr r, s')"
  shows "\<exists>tr d. trace s' = trace s @ tr @ [Obs d, Act OffDialog]
          \<and> vf_found (verifyFeed content d) \<and> tr_success r \<and> tr_content r = content
          \<and> tr_postId r = vf_postId (verifyFeed content d)"
proof -
  from assms obtain s1 s2 s3 x1 x2 x3 where
    c: "composeTweet env content s = (Inr x1, s1)" and
    u: "uploadMedia env media s1 = (Inr x2, s2)" and
    b: "submitTweet env (length media > 0) s2 = (Inr x3, s3)" and
    v: "confirmTweet env content (length media > 0) s3 = (Inr r, s')"
    unfolding postTweetBody_def by (elim bnd_InrE) blast
  from navBudget_Inr_extends [OF navBudget_composeTweet c]
    navBudget_Inr_extends [OF navBudget_uploadMedia u]
    navBudget_Inr_extends [OF navBudget_submitTweet b]
  obtain tr where t: "trace s3 = trace s @ tr" by auto
  from confirmTweet_Inr [OF v] obtain d where
    d: "trace s' = trace s3 @ [Act (Delay (if length media > 0 then 5000 else 3000)),
          Act Evaluate, Obs d, Act OffDialog]"
      "vf_found (verifyFeed content d)" "tr_success r" "tr_content r = content"
      "tr_postId r = vf_postId (verifyFeed content d)"
    by blast
  from d(1) t have "trace s' = trace s @
      (tr @ [Act (Delay (if length media > 0 then 5000 else 3000)), Act Evaluate])
      @ [Obs d, Act OffDialog]" by simp
  with d(2-5) show ?thesis by blast
qed

lemma postTweet_Inr:
  assumes "postTweet env content media s = (Inr r, s')"
  shows "postTweetBody env content media s = (Inr r, s')"
  using assms unfolding postTweet_def
  by (auto elim!: bnd_InrE ensureReady_InrE split: if_splits
        intro!: tryCatch_fails_InrE fails_bnd)

lemma unfollowAct_Inr:
  assumes "unfollowAct env u s = (Inr r, s')"
  shows "\<exists>tr d. trace s' = trace s @ tr @ [Act (Delay 2000), Act Evaluate, Obs d]
          \<and> followBtn d \<and> fr_status r = js ''unfollowed''"
  using assms unfolding unfollowAct_def
proof (elim bnd_InrE, goal_cases)
  case (1 d0 s0)
  note e0 = 1(1)
  from 1(2) obtain t where t: "unfollowTarget d0 = Some t"
    by (cases "unfollowTarget d0") auto
  from 1(2) [unfolded t option.case] show ?case
  proof (elim bnd_InrE, goal_cases)
    case (1 x1 s1 x2 s2 d1 s3 x s4 x5 s5 d s6)
    note c1 = 1(1) and c2 = 1(2) and c3 = 1(3) and c4 = 1(4) and c5 = 1(5) and c6 = 1(6)
      and c7 = 1(7)
    have nb4: "navBudget (if confirmBtn d1 then perform env (Click ConfirmButton)
          else unfollowFlowB env u)"
      unfolding unfollowFlowB_def by (auto split: option.split)
    from navBudget_Inr_extends [OF navBudget_evaluate e0]
      navBudget_Inr_extends [OF navBudget_perform c1]
      navBudget_Inr_extends [OF navBudget_delay c2]
      navBudget_Inr_extends [OF navBudget_evaluate c3]
      navBudget_Inr_extends [OF nb4 c4]
    obtain tr where tr: "trace s4 = trace s @ tr" by auto
    from c5 c6 have t6: "trace s6 = trace s4 @ [Act (Delay 2000), Act Evaluate, Obs d]"
      by (auto elim!: delay_InrE evaluate_InrE)
    from c7 have f: "followBtn d" "trace s' = trace s6" "fr_status r = js ''unfollowed''"
      by (auto elim!: bnd_InrE followOutcome_InrE emit_InrE ret_InrE split: if_splits)
    from tr t6 f show ?case by auto
  qed
qed

lemma unfollowUser_Inr:
  assumes "unfollowUser env u s = (Inr r, s')"
  shows "(fr_status r = js ''not_following'')
       \<or> (\<exists>tr d. trace s' = trace s @ tr @ [Obs d] \<and> followBtn d
               \<and> fr_status r = js ''unfollowed'')"
proof -
  from assms have b: "unfollowBody env (stripAt u) s = (Inr r, s')"
    unfolding unfollowUser_def
    by (auto elim!: bnd_InrE ensureReady_InrE tryCatch_InrE simp: Let_def split: if_splits)
  then obtain st s1 where
    p: "probeFollowState env (stripAt u) s = (Inr st, s1)" and
    k: "(if st = NotFollowing then followOutcome env (stripAt u) ''not_following''
         else if st = Unknown
         then throw (Error (js ''Could not detect follow/unfollow button for @'' @ stripAt u))
         else unfollowAct env (stripAt u)) s1 = (Inr r, s')"
    unfolding unfollowBody_def by (erule bnd_InrE)
  from navBudget_Inr_extends [OF navBudget_probeFollowState p]
  obtain tr1 where t1: "trace s1 = trace s @ tr1" by blast
  show ?thesis
  proof (cases st)
    case NotFollowing
    with k show ?thesis by (auto elim: followOutcome_InrE)
  next
    case Unknown
    with k show ?thesis by simp
  next
    case Following
    with k have "unfollowAct env (stripAt u) s1 = (Inr r, s')" by simp
    from unfollowAct_Inr [OF this] obtain tr d where
      "trace s' = trace s1 @ tr @ [Act (Delay 2000), Act Evaluate, Obs d]" "followBtn d"
      "fr_status r = js ''unfollowed''" by blast
    with t1 have "trace s' = trace s @ (tr1 @ tr @ [Act (Delay 2000), Act Evaluate]) @ [Obs d]"
      "followBtn d" "fr_status r = js ''unfollowed''" by auto
    then show ?thesis by blast
  qed
qed

lemma yields_bnd [intro!]: "(\<And>x. yields Q (f x)) \<Longrightarrow> yields Q (bnd m f)"
  unfolding yields_def by (blast elim: bnd_InrE)

lemma yields_ret [intro!]: "Q x \<Longrightarrow> yields Q (ret x)"
  unfolding yields_def by (simp add: ret_def)

lemma yields_throw [intro!, simp]: "yields Q (throw e)"
  unfolding yields_def by simp

lemma yields_if [intro!]:
  "(c \<Longrightarrow> yields Q a) \<Longrightarrow> (\<not> c \<Longrightarrow> yields Q b) \<Longrightarrow> yields Q (if c then a else b)"
  by simp

lemma yields_tryCatch [intro!]:
  "yields Q m \<Longrightarrow> (\<And>e. yields Q (h e)) \<Longrightarrow> yields Q (tryCatch m h)"
  unfolding yields_def by (blast elim: tryCatch_InrE)

lemma setupProfile_yields: "yields pr_saved (setupProfile env opts)"
  unfolding setupProfile_def setupProfileBody_def Let_def
  by (intro yields_bnd yields_tryCatch yields_if yields_ret yields_throw) simp

lemma likeEach_all_ok:
  assumes "\<forall>rcv a w. fst (react env rcv a w)" "page s = Some p"
  shows "fst (likeEach env is n s) = n + length is"
  using assms(2)
proof (induction "is" arbitrary: n s)
  case Nil
  show ?case by simp
next
  case (Cons i "is")
  define s1 where "s1 = snd (perform env (HandleClick LikeSel i) s)"
  from assms(1) have "fst (react env (Some p) (HandleClick LikeSel i) (world s))" by blast
  then have p1: "perform env (HandleClick LikeSel i) s = (Inr (), s1)" "page s1 = Some p"
    unfolding s1_def using Cons.prems
    by (auto simp: perform_def call_def Let_def split: prod.splits)
  have "page (snd (delay env (1000 + jitter env (world s1)) s1)) = Some p"
    using p1(2) by (simp add: delay_def)
  from Cons.IH [OF this, of "n + 1"] p1(1) show ?case by simp
qed

lemma searchAndLike_all_ok:
  assumes ok: "\<forall>rcv a w. fst (react env rcv a w)"
    and run: "searchAndLike env q c s = (Inr r, s')"
  shows "\<exists>tr d. trace s' = trace s @ tr \<and> Obs d \<in> set tr
             \<and> lr_liked r = nat (min c (int (likeHandles d)))"
proof -
  from run have q: "q \<noteq> []"
    unfolding searchAndLike_def by (auto elim!: bnd_InrE split: if_splits)
  from run [unfolded searchAndLike_def Let_def] show ?thesis
  proof (elim bnd_InrE, goal_cases)
    case (1 x0 s0)
    note k = 1(2) [unfolded if_not_P [OF q]]
    from k show ?case
    proof (elim bnd_InrE, goal_cases)
      case (1 x1 s1 x2 s2 d s3 liked s4)
      from 1(3) obtain p where p3: "page s3 = Some p"
        by (auto elim!: observe_InrE)
      from 1(4) have l: "liked = fst (likeEach env [0..<nat (min c (int (likeHandles d)))] 0 s3)"
        by (auto split: prod.splits)
      from 1(5) have r: "lr_liked r = liked" by (auto elim: ret_InrE)
      from 1(4) obtain tr4 where t4: "trace s4 = trace s3 @ tr4"
        by (auto split: prod.splits dest: likeEach_budget)
      from 1(5) have t5: "s' = s4" by (auto elim: ret_InrE)
      from \<open>ensureReady s = (Inr x0, s0)\<close> have s0: "s0 = s"
        by (auto elim: ensureReady_InrE)
      from navBudget_Inr_extends [OF navBudget_goto 1(1)]
        navBudget_Inr_extends [OF navBudget_delay 1(2)] s0
      obtain tr2 where t2: "trace s2 = trace s @ tr2" by auto
      from 1(3) have t3: "trace s3 = trace s2 @ [Act (Query LikeSel), Obs d]"
        by (auto elim!: observe_InrE)
      from t2 t3 t4 t5 have "trace s' = trace s @ (tr2 @ [Act (Query LikeSel), Obs d] @ tr4)"
        "Obs d \<in> set (tr2 @ [Act (Query LikeSel), Obs d] @ tr4)" by auto
      moreover from l r likeEach_all_ok [OF ok p3]
      have "lr_liked r = nat (min c (int (likeHandles d)))" by simp
      ultimately show ?case by blast
    qed
  qed
qed

lemmas misc_defs = searchAndLike_def setupProfile_def setupProfileBody_def clickTestId_def
  testidPresent_def testidName_def uploadImage_def fillOptional_def fillProfileField_def
  fieldPresent_def validateImage_def truthy_def absolutePath_def likeSite_def blankSite_def

lemmas text_defs = normalizeText_def js_trim_def isSpace_def isHigh_def isLow_def codePoint_def
  postIdOf_def isDigit_def

lemma eval_postTweet_hello: "fst (postTweet composeSite (js ''Hello world!'') [] (readyBot 0)) =
     Inr \<lparr>tr_success = True, tr_content = js ''Hello world!'',
          tr_postId = Some (js ''1234567890''),
          tr_timestamp = js ''2024-01-01T00:00:00.000Z''\<rparr>"
  by (simp add: post_defs prog_defs site_defs mock_defs text_defs Let_def js_def)

lemma eval_unfollow_alice: "fst (unfollowUser profileSite (js ''alice'') (readyBot True)) =
     Inr \<lparr>fr_username = js ''alice'', fr_status = js ''unfollowed'',
          fr_timestamp = js ''2024-01-01T00:00:00.000Z''\<rparr>"
  by (simp add: follow_defs prog_defs profileSite_def mock_defs Let_def js_def)

lemma eval_setupProfile_blank: "fst (setupProfile blankSite noProfileOptions (readyBot ())) =
     Inr \<lparr>pr_avatar = False, pr_header = False, pr_displayName = False, pr_bio = False,
          pr_location = False, pr_website = False, pr_saved = True,
          pr_timestamp = js ''2024-01-01T00:00:00.000Z''\<rparr>"
  by (simp add: misc_defs noProfileOptions_def ensureReady_def waitFor_def prog_defs mock_defs
        Let_def js_def)


lemma eval_follow_alice: "fst (followUser profileSite (js ''alice'') (readyBot False)) =
     Inr \<lparr>fr_username = js ''alice'', fr_status = js ''followed'',
          fr_timestamp = js ''2024-01-01T00:00:00.000Z''\<rparr>"
  by (simp add: follow_defs prog_defs profileSite_def mock_defs Let_def js_def)

lemma eval_searchAndLike_cats: "fst (searchAndLike likeSite (js ''cats'') 5 (readyBot ())) =
     Inr \<lparr>lr_query = js ''cats'', lr_liked = 1\<rparr>"
  by (simp add: misc_defs ensureReady_def prog_defs mock_defs Let_def js_def)

lemma likeSite_all_ok: "\<forall>rcv a w. fst (react likeSite rcv a w)"
  by (simp add: likeSite_def mockEnv_def)

subsection \<open>Initialization\<close>



lemma keepsReady_call [intro!, simp]: "keepsReady (call env rcv a)"
  unfolding keepsReady_def by (auto simp: call_def Let_def split: prod.splits if_splits)


















subsection \<open>The comment collection\<close>

lemma goodMap_Nil [simp]: "goodMap []"
  by (simp add: goodMap_def)

lemma mergeVisible_good:
  "goodMap m \<Longrightarrow> mergeVisible t cs m n = (m', n') \<Longrightarrow> goodMap m' \<and> (\<exists>ys. m' = m @ ys)"
proof (induction cs arbitrary: m n)
  case Nil
  then show ?case by simp
next
  case (Cons c cs)
  define m1 where "m1 = (if commentKey c \<notin> set (map fst m) then m @ [(commentKey c, c)] else m)"
  define n1 where "n1 = (if commentKey c \<notin> set (map fst m) then n + 1 else n)"
  have g1: "goodMap m1" using Cons.prems(1) unfolding m1_def goodMap_def by auto
  have e1: "\<exists>ys. m1 = m @ ys" unfolding m1_def by auto
  show ?case
  proof (cases "int (length m1) \<ge> t")
    case True
    with Cons.prems(2) have "m' = m1" by (simp add: Let_def m1_def n1_def)
    with g1 e1 show ?thesis by simp
  next
    case False
    with Cons.prems(2) have "mergeVisible t cs m1 n1 = (m', n')"
      by (simp add: Let_def m1_def n1_def)
    from Cons.IH [OF g1 this] e1 show ?thesis by auto
  qed
qed

lemma scrollLoop_good:
  assumes "scrollLoop env t m r0 s = (res, s')"
  shows "goodMap m \<longrightarrow> (\<forall>m' b. res = Inr (m', b) \<longrightarrow> goodMap m' \<and> (\<exists>ys. m' = m @ ys))"
  using assms
proof (induction rule: scrollLoop_rule)
  case (Done m r0 s)
  show ?case by simp
next
  case (EvalFail m r0 s e s1)
  show ?case by simp
next
  case (Reached m r0 s d s1 m' nf)
  then show ?case using mergeVisible_good by blast
next
  case (Stalled m r0 s d s1 m' nf)
  then show ?case using mergeVisible_good by blast
next
  case (ScrollFail m r0 s d s1 m' nf e s2)
  show ?case by simp
next
  case (Blocked m r0 s d s1 m' nf h s2)
  then show ?case using mergeVisible_good by blast
next
  case (Retry m r0 s d s1 m' nf h s2 res s')
  show ?case
  proof (intro impI allI)
    fix m'' b assume g: "goodMap m" and r: "res = Inr (m'', b)"
    from mergeVisible_good [OF g Retry(3)] Retry(8) r show "goodMap m'' \<and> (\<exists>ys. m'' = m @ ys)"
      by auto
  qed
next
  case (Next m r0 s d s1 m' nf prev new s2 res s')
  show ?case
  proof (intro impI allI)
    fix m'' b assume g: "goodMap m" and r: "res = Inr (m'', b)"
    from mergeVisible_good [OF g Next(3)] Next(8) r show "goodMap m'' \<and> (\<exists>ys. m'' = m @ ys)"
      by auto
  qed
qed


lemma slice0_length: "0 \<le> n \<Longrightarrow> length (slice0 xs n) \<le> nat n"
  by (simp add: slice0_def)

lemma goodMap_keys: "goodMap m \<Longrightarrow> map commentKey (map snd m) = map fst m"
  by (induction m) (auto simp: goodMap_def)

lemma slice0_distinct:
  assumes "goodMap m"
  shows "distinct (map commentKey (slice0 (map snd m) n))"
proof -
  have "distinct (map fst m)" using assms by (simp add: goodMap_def)
  then have "distinct (map commentKey (map snd m))"
    by (simp only: goodMap_keys [OF assms])
  then have "distinct (take k (map commentKey (map snd m)))" for k
    by (rule distinct_take)
  then show ?thesis by (simp only: slice0_def take_map split: if_split) simp
qed

lemmas comment_defs = getTweetComments_def tweetUrl_def visibleComments_def commentOf_def
  commentKey_def parseLabel_def parseInt_def slice0_def scrollStep_def scrollLoop.simps
  List.map_filter_def threadSite_def threadDom_def replyArticle_def isDigit_def
  ensureReady_def readUrl_def str_or_def

lemma eval_thread:
  "fst (getTweetComments threadSite (js ''123'') 10 (readyBot ())) =
     Inr \<lparr>cr_id = js ''123'', cr_url = js ''https://x.com/i/status/123'', cr_requested = 10,
          cr_actualReplyCount = 4, cr_collected = 4, cr_scrollBlocked = False,
          cr_comments = map commentOf
            [replyArticle (Some (js ''/ann/status/201'')) ''ann'' ''first'',
             replyArticle (Some (js ''/bob/status/202'')) ''bob'' ''second'',
             replyArticle (Some (js ''/cy/status/203'')) ''cy'' ''third'',
             replyArticle None ''dee'' ''fourth'']\<rparr>"
  by (simp add: comment_defs prog_defs mock_defs Let_def js_def)



subsection \<open>The cost of the scroll loop\<close>

lemma cost_simps [simp]:
  "cost c [] = 0"
  "cost c (xs @ ys) = cost c xs + cost c ys"
  "cost c (x # xs) = c x + cost c xs"
  by (simp_all add: cost_def)
















subsection \<open>A responsive driver\<close>

lemma evaluate_responsive:
  assumes "responsive env" "page s = Some p"
  obtains w where "evaluate env s
      = (Inr (domOf env p w), s\<lparr>world := w, trace := trace s @ [Act Evaluate, Obs (domOf env p w)]\<rparr>)"
proof -
  from assms(1) have "fst (react env (Some p) Evaluate (world s))"
    unfolding responsive_def by blast
  with assms(2) show ?thesis
    by (intro that [of "snd (react env (Some p) Evaluate (world s))"])
       (auto simp: evaluate_def observe_def perform_def call_def bnd_def Let_def
             split: prod.splits)
qed

lemma evaluate_no_Inl:
  assumes "responsive env" "page s = Some p"
  shows "evaluate env s \<noteq> (Inl e, s1)"
  using evaluate_responsive [OF assms] by (metis Inl_Inr_False prod.inject)

lemma perform_responsive:
  assumes "responsive env" "page s = Some p"
  obtains w where "perform env a s = (Inr (), s\<lparr>world := w, trace := trace s @ [Act a]\<rparr>)"
proof -
  from assms(1) have "fst (react env (Some p) a (world s))"
    unfolding responsive_def by blast
  with assms(2) show ?thesis
    by (intro that [of "snd (react env (Some p) a (world s))"])
       (auto simp: perform_def call_def Let_def split: prod.splits)
qed

lemma succeedsD:
  assumes "succeeds p m" "page s = Some p"
  obtains x s' where "m s = (Inr x, s')" "page s' = Some p"
  using assms unfolding succeeds_def by blast

lemma succeeds_bnd:
  assumes "succeeds p m" "\<And>x. succeeds p (f x)"
  shows "succeeds p (bnd m f)"
  unfolding succeeds_def
proof (intro allI impI)
  fix s :: "'a bot" assume "page s = Some p"
  from succeedsD [OF assms(1) this] obtain x s1 where
    a: "m s = (Inr x, s1)" "page s1 = Some p" by blast
  from succeedsD [OF assms(2) a(2)] obtain y s2 where
    b: "f x s1 = (Inr y, s2)" "page s2 = Some p" by blast
  from a b show "\<exists>x s'. bnd m f s = (Inr x, s') \<and> page s' = Some p"
    by (simp add: bnd_def)
qed

lemma succeeds_ret: "succeeds p (ret x)"
  unfolding succeeds_def by (simp add: ret_def)

lemma succeeds_get: "succeeds p (get f)"
  unfolding succeeds_def by (simp add: get_def)

lemma succeeds_delay: "succeeds p (delay env n)"
  unfolding succeeds_def by (simp add: delay_def)

lemma succeeds_if:
  "(c \<Longrightarrow> succeeds p a) \<Longrightarrow> (\<not> c \<Longrightarrow> succeeds p b) \<Longrightarrow> succeeds p (if c then a else b)"
  by simp

lemma succeeds_perform:
  assumes "responsive env"
  shows "succeeds p (perform env a)"
  unfolding succeeds_def
proof (intro allI impI)
  fix s :: "'a bot" assume pg: "page s = Some p"
  from assms have "fst (react env (Some p) a (world s))"
    unfolding responsive_def by blast
  with pg show "\<exists>x s'. perform env a s = (Inr x, s') \<and> page s' = Some p"
    by (auto simp: perform_def call_def Let_def split: prod.splits)
qed

lemma succeeds_goto:
  assumes "responsive env"
  shows "succeeds p (goto env u wu)"
  using succeeds_perform [OF assms] unfolding succeeds_def goto_def by blast

lemma succeeds_evaluate:
  assumes "responsive env"
  shows "succeeds p (evaluate env)"
  unfolding evaluate_def observe_def
  by (intro succeeds_bnd succeeds_perform assms) (simp add: succeeds_def Let_def)

lemma succeeds_readUrl:
  assumes "responsive env"
  shows "succeeds p (readUrl env)"
  unfolding readUrl_def
  by (intro succeeds_bnd succeeds_perform assms) (simp add: succeeds_def Let_def)

lemma succeeds_scrollStep:
  assumes "responsive env"
  shows "succeeds p (scrollStep env)"
  unfolding scrollStep_def
  by (intro succeeds_bnd succeeds_perform succeeds_evaluate succeeds_delay succeeds_ret assms)

lemma succeeds_not_Inl:
  assumes "succeeds p m" "page s = Some p"
  shows "m s \<noteq> (Inl e, s')"
  using succeedsD [OF assms] by (metis Inl_Inr_False prod.inject)

lemma succeeds_page:
  assumes "succeeds p m" "page s = Some p" "m s = (r, s')"
  shows "page s' = Some p"
  using succeedsD [OF assms(1,2)] assms(3) by (metis prod.inject)

lemma scrollLoop_total:
  assumes "scrollLoop env t m r0 s = (res, s')" "responsive env"
  shows "page s = Some p \<longrightarrow> (\<exists>m' b. res = Inr (m', b)) \<and> page s' = Some p"
  using assms(1)
proof (induction rule: scrollLoop_rule)
  case (Done m r0 s)
  show ?case by blast
next
  case (EvalFail m r0 s e s1)
  with succeeds_not_Inl [OF succeeds_evaluate [OF assms(2)]] show ?case by blast
next
  case (Reached m r0 s d s1 m' nf)
  with succeeds_page [OF succeeds_evaluate [OF assms(2)]] show ?case by blast
next
  case (Stalled m r0 s d s1 m' nf)
  with succeeds_page [OF succeeds_evaluate [OF assms(2)]] show ?case by blast
next
  case (ScrollFail m r0 s d s1 m' nf e s2)
  show ?case
  proof
    assume "page s = Some p"
    from succeeds_page [OF succeeds_evaluate [OF assms(2)] this ScrollFail(2)]
    have "page s1 = Some p" .
    from succeeds_not_Inl [OF succeeds_scrollStep [OF assms(2)] this] ScrollFail(6)
    show "(\<exists>m' b. Inl e = Inr (m', b)) \<and> page s2 = Some p" by blast
  qed
next
  case (Blocked m r0 s d s1 m' nf h s2)
  show ?case
  proof
    assume "page s = Some p"
    from succeeds_page [OF succeeds_evaluate [OF assms(2)] this Blocked(2)]
    have "page s1 = Some p" .
    from succeeds_page [OF succeeds_scrollStep [OF assms(2)] this Blocked(6)]
    show "(\<exists>m'a b. Inr (m', True) = Inr (m'a, b)) \<and> page s2 = Some p" by blast
  qed
next
  case (Retry m r0 s d s1 m' nf h s2 res s')
  show ?case
  proof
    assume "page s = Some p"
    from succeeds_page [OF succeeds_evaluate [OF assms(2)] this Retry(2)]
    have "page s1 = Some p" .
    from succeeds_page [OF succeeds_scrollStep [OF assms(2)] this Retry(6)]
    have "page s2 = Some p" .
    then have "page (snd (delay env 1000 s2)) = Some p" by (simp add: delay_def)
    with Retry(8) show "(\<exists>m' b. res = Inr (m', b)) \<and> page s' = Some p" by blast
  qed
next
  case (Next m r0 s d s1 m' nf prev new s2 res s')
  show ?case
  proof
    assume "page s = Some p"
    from succeeds_page [OF succeeds_evaluate [OF assms(2)] this Next(2)]
    have "page s1 = Some p" .
    from succeeds_page [OF succeeds_scrollStep [OF assms(2)] this Next(6)]
    have "page s2 = Some p" .
    with Next(8) show "(\<exists>m' b. res = Inr (m', b)) \<and> page s' = Some p" by blast
  qed
qed

lemma succeeds_scrollLoop:
  assumes "responsive env"
  shows "succeeds p (scrollLoop env t m r0)"
  unfolding succeeds_def
proof (intro allI impI)
  fix s :: "'a bot" assume pg: "page s = Some p"
  obtain res s' where run: "scrollLoop env t m r0 s = (res, s')"
    by (cases "scrollLoop env t m r0 s")
  from scrollLoop_total [OF run assms, of p] pg run
  show "\<exists>x s'. scrollLoop env t m r0 s = (Inr x, s') \<and> page s' = Some p" by auto
qed

lemma getTweetComments_total:
  assumes "responsive env" "isReady s" "page s = Some p" "tweetId \<noteq> []"
  shows "\<exists>r s'. getTweetComments env tweetId count0 s = (Inr r, s')"
proof -
  let ?rest = "bnd (get (\<lambda>s. tweetUrl s tweetId)) (\<lambda>u.
     bnd (readUrl env) (\<lambda>current.
     bnd (if \<not> js_includes current (js ''/status/'' @ tweetId)
          then goto env u NetworkIdle2 else ret ()) (\<lambda>_.
     bnd (delay env 2000) (\<lambda>_.
     bnd (evaluate env) (\<lambda>d.
     let actualReplyCount = parseLabel (pageReply d) None;
         targetCount = min count0 (if actualReplyCount = 0 then count0 else int actualReplyCount)
     in
     bnd (scrollLoop env targetCount [] 0) (\<lambda>(collectedMap, scrollBlocked).
     let comments = slice0 (map snd collectedMap) targetCount in
     ret \<lparr>cr_id = tweetId, cr_url = u, cr_requested = count0,
          cr_actualReplyCount = actualReplyCount, cr_collected = length comments,
          cr_scrollBlocked = scrollBlocked, cr_comments = comments\<rparr>))))))"
  have "succeeds p ?rest"
    unfolding Let_def
    by (intro succeeds_bnd succeeds_get succeeds_readUrl succeeds_if succeeds_goto
          succeeds_ret succeeds_delay succeeds_evaluate succeeds_scrollLoop assms(1))
       (simp add: split_def succeeds_ret)
  from succeedsD [OF this assms(3)] obtain r s' where "?rest s = (Inr r, s')" by blast
  moreover have "getTweetComments env tweetId count0 s = ?rest s"
    using assms(2,4) by (simp add: getTweetComments_def bnd_def ensureReady_def)
  ultimately show ?thesis by simp
qed


subsection \<open>A stalled thread\<close>




lemma eval_stalled_scrolls:
  "scrolls (trace (snd (scrollLoop stalledSite 10 threadMap 0 (readyBot 0)))) = 4
   \<and> waited (trace (snd (scrollLoop stalledSite 10 threadMap 0 (readyBot 0)))) = 6000"
  by (simp add: stalledSite_def threadMap_def comment_defs prog_defs mock_defs Let_def js_def
       scrolls_def waited_def scrollPrice_def delayPrice_def)

subsection \<open>Normalization by code points\<close>






lemma wellFormed_pair:
  "isHigh c \<Longrightarrow> wellFormed (c # d # xs) = (isLow d \<and> wellFormed xs)"
  by simp

lemma high_not_low: "isHigh c \<Longrightarrow> \<not> isLow c"
  by (simp add: isHigh_def isLow_def)












subsection \<open>The feed check as a search\<close>











subsection \<open>The feed check in the operation\<close>






section \<open>The claims\<close>

text \<open>
  C8. When the follow-state probe resolves neither signal (no transparent unfollow
  control, no at-sign menu button, no follow button), \<^verbatim>\<open>followUser\<close> and
  \<^verbatim>\<open>unfollowUser\<close> fail with an error and emit their failure event; the trace holds
  the navigation, the settle delay and the two reads of the probe, and no click.
\<close>

theorem unknown_follow_state_is_fatal:
  assumes "isReady s" and "uname0 \<noteq> []"
    and "probeFollowState env (stripAt uname0) s = (Inr Unknown, s1)"
  shows "followUser env uname0 s =
           (Inl (Error (js ''Could not detect follow button for @'' @ stripAt uname0)),
            s1\<lparr>events := events s1 @ [EvFollowFailed (stripAt uname0)
               (Error (js ''Could not detect follow button for @'' @ stripAt uname0))]\<rparr>)
       \<and> unfollowUser env uname0 s =
           (Inl (Error (js ''Could not detect follow/unfollow button for @'' @ stripAt uname0)),
            s1\<lparr>events := events s1 @ [EvUnfollowFailed (stripAt uname0)
               (Error (js ''Could not detect follow/unfollow button for @'' @ stripAt uname0))]\<rparr>)
       \<and> (\<exists>d1 d2. trace s1 = trace s @ probeTrace s (stripAt uname0) d1 d2
             \<and> \<not> transparentBg d2 \<and> \<not> list_ex atMenuButton (ariaButtons d2)
             \<and> \<not> followBtn d2)"
proof -
  from probeFollowState_Inr [OF assms(3)]
  have tr: "\<exists>d1 d2. trace s1 = trace s @ probeTrace s (stripAt uname0) d1 d2
             \<and> \<not> transparentBg d2 \<and> \<not> list_ex atMenuButton (ariaButtons d2)
             \<and> \<not> followBtn d2"
    by (auto simp: followState_Unknown_iff)
  have f: "followUser env uname0 s =
           (Inl (Error (js ''Could not detect follow button for @'' @ stripAt uname0)),
            s1\<lparr>events := events s1 @ [EvFollowFailed (stripAt uname0)
               (Error (js ''Could not detect follow button for @'' @ stripAt uname0))]\<rparr>)"
    by (simp add: followUser_unfold assms(1,2) tryCatch_def followBody_def assms(3)
          throw_def emit_def bnd_def)
  have u: "unfollowUser env uname0 s =
           (Inl (Error (js ''Could not detect follow/unfollow button for @'' @ stripAt uname0)),
            s1\<lparr>events := events s1 @ [EvUnfollowFailed (stripAt uname0)
               (Error (js ''Could not detect follow/unfollow button for @'' @ stripAt uname0))]\<rparr>)"
    by (simp add: unfollowUser_unfold assms(1,2) tryCatch_def unfollowBody_def assms(3)
          throw_def emit_def bnd_def)
  from f u tr show ?thesis by blast
qed

theorem unknown_follow_state_is_fatal_witness:
  "fst (followUser blankSite (js ''@ghost'') (readyBot ())) =
      Inl (Error (js ''Could not detect follow button for @ghost''))
   \<and> fst (unfollowUser blankSite (js ''@ghost'') (readyBot ())) =
      Inl (Error (js ''Could not detect follow/unfollow button for @ghost''))
   \<and> trace (snd (followUser blankSite (js ''@ghost'') (readyBot ()))) =
      [Act (Goto (js ''https://x.com/ghost'') NetworkIdle2 600000), Act (Delay 2000),
       Act Evaluate, Obs blankDom, Act Evaluate, Obs blankDom]"
proof -
  have r: "isReady (readyBot ())" and n: "js ''@ghost'' \<noteq> []"
    by (simp_all add: readyBot_def js_def)
  have "fst (probeFollowState blankSite (stripAt (js ''@ghost'')) (readyBot ())) = Inr Unknown"
    by (simp add: follow_defs prog_defs blankSite_def mock_defs Let_def js_def)
  then have p: "probeFollowState blankSite (stripAt (js ''@ghost'')) (readyBot ()) =
      (Inr Unknown, snd (probeFollowState blankSite (stripAt (js ''@ghost'')) (readyBot ())))"
    by (metis prod.collapse)
  have t: "trace (snd (probeFollowState blankSite (stripAt (js ''@ghost'')) (readyBot ()))) =
      [Act (Goto (js ''https://x.com/ghost'') NetworkIdle2 600000), Act (Delay 2000),
       Act Evaluate, Obs blankDom, Act Evaluate, Obs blankDom]"
    by (simp add: follow_defs prog_defs blankSite_def mock_defs Let_def js_def)
  from unknown_follow_state_is_fatal [OF r n p] t show ?thesis
    by (simp add: stripAt_def js_def)
qed

text \<open>
  C3. Follow and unfollow are no-ops on a state that is already satisfied. When the
  profile page loads and the state probe reads a DOM with a transparent unfollow control
  or an at-sign menu button, \<^verbatim>\<open>followUser\<close> returns \<^verbatim>\<open>already_following\<close> and the trace
  holds the probe alone (one navigation, one delay, two reads, no click). Hence after
  a call that returned \<^verbatim>\<open>followed\<close>, a second call on a page that still renders the
  verified signal returns \<^verbatim>\<open>already_following\<close> with the probe alone. Symmetrically
  \<^verbatim>\<open>unfollowUser\<close> returns \<^verbatim>\<open>not_following\<close> with the probe alone when the DOM shows a
  follow button and neither following signal.
\<close>

theorem follow_unfollow_idempotent:
  "(isReady s \<and> u \<noteq> [] \<and> probeFollowState env (stripAt u) s = (Inr st, s1)
      \<and> page s1 = Some p
      \<and> (transparentBg (domOf env p (world s1))
           \<or> list_ex atMenuButton (ariaButtons (domOf env p (world s1))))
    \<longrightarrow> followUser env u s =
          (Inr \<lparr>fr_username = stripAt u, fr_status = js ''already_following'',
                 fr_timestamp = nowISO env (world s1)\<rparr>, s1)
        \<and> (\<exists>d1. trace s1 = trace s @ probeTrace s (stripAt u) d1 (domOf env p (world s1))))
   \<and> (followUser env u t = (Inr r1, t1) \<and> fr_status r1 = js ''followed''
      \<and> probeFollowState env (stripAt u) t1 = (Inr st2, t2) \<and> page t1 = Some q
      \<and> followConfirmed (domOf env q (world t2)) = followConfirmed (domOf env q (world t1))
    \<longrightarrow> followUser env u t1 =
          (Inr \<lparr>fr_username = stripAt u, fr_status = js ''already_following'',
                 fr_timestamp = nowISO env (world t2)\<rparr>, t2)
        \<and> (\<exists>d1. trace t2 = trace t1 @ probeTrace t1 (stripAt u) d1 (domOf env q (world t2))))
   \<and> (isReady v \<and> u \<noteq> [] \<and> probeFollowState env (stripAt u) v = (Inr st3, v1)
      \<and> page v1 = Some p3
      \<and> \<not> transparentBg (domOf env p3 (world v1))
      \<and> \<not> list_ex atMenuButton (ariaButtons (domOf env p3 (world v1)))
      \<and> followBtn (domOf env p3 (world v1))
    \<longrightarrow> unfollowUser env u v =
          (Inr \<lparr>fr_username = stripAt u, fr_status = js ''not_following'',
                 fr_timestamp = nowISO env (world v1)\<rparr>, v1)
        \<and> (\<exists>d1. trace v1 = trace v @ probeTrace v (stripAt u) d1 (domOf env p3 (world v1))))"
proof -
  have already: "followUser env u s =
          (Inr \<lparr>fr_username = stripAt u, fr_status = js ''already_following'',
                 fr_timestamp = nowISO env (world s1)\<rparr>, s1)
        \<and> (\<exists>d1. trace s1 = trace s @ probeTrace s (stripAt u) d1 (domOf env p (world s1)))"
    if h: "isReady s" "u \<noteq> []" "probeFollowState env (stripAt u) s = (Inr st, s1)"
      "page s1 = Some p"
      "transparentBg (domOf env p (world s1))
         \<or> list_ex atMenuButton (ariaButtons (domOf env p (world s1)))"
    for s s1 st p
  proof -
    from probeFollowState_Inr [OF h(3)] h(4) obtain d1 where
      P: "trace s1 = trace s @ probeTrace s (stripAt u) d1 (domOf env p (world s1))"
         "followState (domOf env p (world s1)) = st"
      by (auto simp: sameSession_def)
    from P(2) h(5) have st: "st = Following"
      by (simp add: followState_Following_iff [symmetric])
    have "followUser env u s =
          (Inr \<lparr>fr_username = stripAt u, fr_status = js ''already_following'',
                 fr_timestamp = nowISO env (world s1)\<rparr>, s1)"
      by (simp add: followUser_unfold h(1,2) tryCatch_def followBody_def h(3) st
            followOutcome_def bnd_def)
    with P(1) show ?thesis by blast
  qed
  have twice: "followUser env u t1 =
          (Inr \<lparr>fr_username = stripAt u, fr_status = js ''already_following'',
                 fr_timestamp = nowISO env (world t2)\<rparr>, t2)
        \<and> (\<exists>d1. trace t2 = trace t1 @ probeTrace t1 (stripAt u) d1 (domOf env q (world t2)))"
    if h: "followUser env u t = (Inr r1, t1)" "fr_status r1 = js ''followed''"
      "probeFollowState env (stripAt u) t1 = (Inr st2, t2)" "page t1 = Some q"
      "followConfirmed (domOf env q (world t2)) = followConfirmed (domOf env q (world t1))"
  proof -
    from followUser_Inr [OF h(1)] have
      r: "isReady t" and n: "u \<noteq> []" and b: "followBody env (stripAt u) t = (Inr r1, t1)"
      by auto
    from followBody_Inr [OF b] h(2,4) have
      c: "followConfirmed (domOf env q (world t1))" and ss: "sameSession t t1"
      by auto
    from ss r have r1: "isReady t1" by (simp add: sameSession_def)
    from probeFollowState_Inr [OF h(3)] h(4) have pg: "page t2 = Some q"
      by (auto simp: sameSession_def)
    from c h(5) have "transparentBg (domOf env q (world t2))
         \<or> list_ex atMenuButton (ariaButtons (domOf env q (world t2)))"
      by (simp add: followConfirmed_iff)
    from already [OF r1 n h(3) pg this] show ?thesis .
  qed
  have notf: "unfollowUser env u v =
          (Inr \<lparr>fr_username = stripAt u, fr_status = js ''not_following'',
                 fr_timestamp = nowISO env (world v1)\<rparr>, v1)
        \<and> (\<exists>d1. trace v1 = trace v @ probeTrace v (stripAt u) d1 (domOf env p3 (world v1)))"
    if h: "isReady v" "u \<noteq> []" "probeFollowState env (stripAt u) v = (Inr st3, v1)"
      "page v1 = Some p3"
      "\<not> transparentBg (domOf env p3 (world v1))"
      "\<not> list_ex atMenuButton (ariaButtons (domOf env p3 (world v1)))"
      "followBtn (domOf env p3 (world v1))"
  proof -
    from probeFollowState_Inr [OF h(3)] h(4) obtain d1 where
      P: "trace v1 = trace v @ probeTrace v (stripAt u) d1 (domOf env p3 (world v1))"
         "followState (domOf env p3 (world v1)) = st3"
      by (auto simp: sameSession_def)
    from P(2) h(5,6,7) have st: "st3 = NotFollowing"
      by (simp add: followState_def)
    have "unfollowUser env u v =
          (Inr \<lparr>fr_username = stripAt u, fr_status = js ''not_following'',
                 fr_timestamp = nowISO env (world v1)\<rparr>, v1)"
      by (simp add: unfollowUser_unfold h(1,2) tryCatch_def unfollowBody_def h(3) st
            followOutcome_def bnd_def)
    with P(1) show ?thesis by blast
  qed
  from already twice notf show ?thesis by blast
qed


theorem follow_unfollow_idempotent_witness:
  "fst (followUser profileSite (js ''@alice'') (readyBot True)) =
      Inr \<lparr>fr_username = js ''alice'', fr_status = js ''already_following'',
            fr_timestamp = js ''2024-01-01T00:00:00.000Z''\<rparr>
   \<and> fst (followUser profileSite (js ''@alice'') (readyBot False)) =
      Inr \<lparr>fr_username = js ''alice'', fr_status = js ''followed'',
            fr_timestamp = js ''2024-01-01T00:00:00.000Z''\<rparr>
   \<and> fst (followUser profileSite (js ''@alice'')
          (snd (followUser profileSite (js ''@alice'') (readyBot False)))) =
      Inr \<lparr>fr_username = js ''alice'', fr_status = js ''already_following'',
            fr_timestamp = js ''2024-01-01T00:00:00.000Z''\<rparr>
   \<and> fst (unfollowUser profileSite (js ''@alice'') (readyBot False)) =
      Inr \<lparr>fr_username = js ''alice'', fr_status = js ''not_following'',
            fr_timestamp = js ''2024-01-01T00:00:00.000Z''\<rparr>"
proof -
  let ?u = "js ''@alice''"
  let ?ts = "js ''2024-01-01T00:00:00.000Z''"
  define s1 where "s1 = snd (probeFollowState profileSite (stripAt ?u) (readyBot True))"
  define t1 where "t1 = snd (followUser profileSite ?u (readyBot False))"
  define t2 where "t2 = snd (probeFollowState profileSite (stripAt ?u) t1)"
  define v1 where "v1 = snd (probeFollowState profileSite (stripAt ?u) (readyBot False))"
  note ev = follow_defs prog_defs profileSite_def mock_defs Let_def js_def
  have n: "?u \<noteq> []" by (simp add: js_def)
  have a1: "probeFollowState profileSite (stripAt ?u) (readyBot True) = (Inr Following, s1)"
    and a2: "page s1 = Some 0" and a3: "transparentBg (domOf profileSite 0 (world s1))"
    and a4: "nowISO profileSite (world s1) = ?ts"
    unfolding s1_def by (simp_all add: ev)
  have b1: "followUser profileSite ?u (readyBot False) =
      (Inr \<lparr>fr_username = js ''alice'', fr_status = js ''followed'', fr_timestamp = ?ts\<rparr>, t1)"
    unfolding t1_def by (simp add: ev)
  have b2: "probeFollowState profileSite (stripAt ?u) t1 = (Inr Following, t2)"
    and b3: "page t1 = Some 0"
    and b4: "followConfirmed (domOf profileSite 0 (world t2)) =
             followConfirmed (domOf profileSite 0 (world t1))"
    and b5: "nowISO profileSite (world t2) = ?ts"
    unfolding t2_def t1_def by (simp_all add: ev)
  have c1: "probeFollowState profileSite (stripAt ?u) (readyBot False) = (Inr NotFollowing, v1)"
    and c2: "page v1 = Some 0"
    and c3: "\<not> transparentBg (domOf profileSite 0 (world v1))"
    and c4: "\<not> list_ex atMenuButton (ariaButtons (domOf profileSite 0 (world v1)))"
    and c5: "followBtn (domOf profileSite 0 (world v1))"
    and c6: "nowISO profileSite (world v1) = ?ts"
    unfolding v1_def by (simp_all add: ev)
  have r: "isReady (readyBot True)" "isReady (readyBot False)"
    by (simp_all add: readyBot_def)
  from follow_unfollow_idempotent [where env = profileSite and u = ?u
      and s = "readyBot True" and st = Following and ?s1.0 = s1 and p = 0
      and t = "readyBot False" and ?t1.0 = t1 and ?t2.0 = t2 and ?st2.0 = Following and q = 0
      and ?r1.0 = "\<lparr>fr_username = js ''alice'', fr_status = js ''followed'', fr_timestamp = ?ts\<rparr>"
      and v = "readyBot False" and ?st3.0 = NotFollowing and ?v1.0 = v1 and ?p3.0 = 0]
    r n a1 a2 a3 b1 b2 b3 b4 c1 c2 c3 c4 c5
  have "followUser profileSite ?u (readyBot True) =
          (Inr \<lparr>fr_username = stripAt ?u, fr_status = js ''already_following'',
                 fr_timestamp = nowISO profileSite (world s1)\<rparr>, s1)"
    and "followUser profileSite ?u t1 =
          (Inr \<lparr>fr_username = stripAt ?u, fr_status = js ''already_following'',
                 fr_timestamp = nowISO profileSite (world t2)\<rparr>, t2)"
    and "unfollowUser profileSite ?u (readyBot False) =
          (Inr \<lparr>fr_username = stripAt ?u, fr_status = js ''not_following'',
                 fr_timestamp = nowISO profileSite (world v1)\<rparr>, v1)"
    by simp_all
  then show ?thesis
    using b1 a4 b5 c6 unfolding t1_def [symmetric]
    by (simp add: stripAt_def js_def)
qed

text \<open>
  C9. A constructor call without a timeout, or with the falsy timeout 0, gives the
  session the navigation budget 600000 ms (and not the 60000 ms of the documentation).
  Every operation keeps the navigation budget: it leaves the session's timeout alone
  and every navigation it makes carries that timeout.
\<close>

theorem navigation_timeout_budget:
  "(newBot opts w = Inr b \<and> (op_timeout opts = None \<or> op_timeout opts = Some 0)
      \<longrightarrow> timeout b = 600000 \<and> timeout b \<noteq> 60000)
   \<and> navBudget (init env) \<and> navBudget (postTweet env content media)
   \<and> navBudget (getTweetStats env tweetId) \<and> navBudget (getTweetComments env tweetId count0)
   \<and> navBudget (followUser env uname) \<and> navBudget (unfollowUser env uname)
   \<and> navBudget (searchAndLike env query count0) \<and> navBudget (setupProfile env popts)
   \<and> navBudget (recoverPage env) \<and> navBudget (close env)"
proof -
  have "timeout b = 600000 \<and> timeout b \<noteq> 60000"
    if "newBot opts w = Inr b" "op_timeout opts = None \<or> op_timeout opts = Some 0"
    using that by (auto simp: newBot_def split: option.splits)
  then show ?thesis
    using navBudget_init navBudget_postTweet navBudget_getTweetStats navBudget_getTweetComments
      navBudget_followUser navBudget_unfollowUser navBudget_searchAndLike navBudget_setupProfile
      navBudget_recoverPage navBudget_close
    by blast
qed

theorem navigation_timeout_budget_witness:
  "newBot demoOptions False = Inr (projr (newBot demoOptions False))
   \<and> timeout (projr (newBot demoOptions False)) = 600000
   \<and> list_all (budgetOk 600000)
        (trace (snd (followUser profileSite (js ''alice'')
           (snd (init profileSite (projr (newBot demoOptions False)))))))
   \<and> Act (Goto (js ''https://x.com/home'') NetworkIdle2 600000)
        \<in> set (trace (snd (init profileSite (projr (newBot demoOptions False)))))
   \<and> Act (Goto (js ''https://x.com/alice'') NetworkIdle2 600000)
        \<in> set (trace (snd (followUser profileSite (js ''alice'')
           (snd (init profileSite (projr (newBot demoOptions False)))))))"
proof -
  define b where "b = projr (newBot demoOptions False :: error + bool bot)"
  define s1 where "s1 = snd (init profileSite b)"
  define s2 where "s2 = snd (followUser profileSite (js ''alice'') s1)"
  note ev = init_defs follow_defs prog_defs profileSite_def mock_defs Let_def js_def
  have nb: "newBot demoOptions False = Inr b" and tb: "trace b = []"
    unfolding b_def by (simp_all add: ev)
  have o: "op_timeout demoOptions = None \<or> op_timeout demoOptions = Some 0"
    by (simp add: demoOptions_def)
  note nav = navigation_timeout_budget [of demoOptions False b profileSite _ _ _ _ "js ''alice''"]
  from nav nb o have t: "timeout b = 600000" by blast
  from nav have i: "navBudget (init profileSite)"
    and f: "navBudget (followUser profileSite (js ''alice''))" by blast+
  have i1: "init profileSite b = (fst (init profileSite b), s1)"
    by (simp add: s1_def)
  have f1: "followUser profileSite (js ''alice'') s1 =
      (fst (followUser profileSite (js ''alice'') s1), s2)"
    by (simp add: s2_def)
  from i [unfolded navBudget_def, rule_format, OF i1] t tb
  have a1: "timeout s1 = 600000" "list_all (budgetOk 600000) (trace s1)" by auto
  from f [unfolded navBudget_def, rule_format, OF f1] a1
  have a2: "list_all (budgetOk 600000) (trace s2)" by auto
  have g1: "Act (Goto (js ''https://x.com/home'') NetworkIdle2 600000) \<in> set (trace s1)"
    unfolding s1_def b_def by (simp add: ev)
  have g2: "Act (Goto (js ''https://x.com/alice'') NetworkIdle2 600000) \<in> set (trace s2)"
    unfolding s2_def s1_def b_def by (simp add: ev)
  from nb t a2 g1 g2 show ?thesis
    unfolding s2_def s1_def b_def by simp
qed

text \<open>
  C2, as stated, fails for a media path that names no file: the path is checked inside
  the upload loop, after the navigation to the compose surface, the click and the typing,
  and the rejection runs through recovery.
\<close>

theorem postTweet_missing_file_counterexample:
  "fst (postTweet noFilesSite (js ''hi'') [js ''/tmp/missing.png''] (readyBot 0)) =
     Inl (Error (js ''File not found: /tmp/missing.png''))
   \<and> trace (snd (postTweet noFilesSite (js ''hi'') [js ''/tmp/missing.png''] (readyBot 0))) =
     [Act OnDialog, Act (Goto (js ''https://x.com/compose/post'') NetworkIdle2 600000),
      Act (Delay 1000), Act (WaitForSelector TweetTextarea 10000),
      Act (ClickSel TweetTextarea), Act (Delay 200), Act (TypeSel TweetTextarea (js ''hi'') 30),
      Act (Delay 500), Act (Query ComposeFileInputSel), Obs composeDom, Act OffDialog,
      Enter ''_recoverPage'', Act OnceDialog, Act ReadUrl,
      UrlRead (js ''https://x.com/compose/post''),
      Act (Goto (js ''https://x.com/home'') DomContentLoaded 600000), Act (Delay 1000)]"
  by (simp add: post_defs prog_defs site_defs mock_defs Let_def js_def)

text \<open>
  C2, amended. An empty text, a text of more than 280 code units and more than four
  media files are each rejected before any page interaction: the session, its trace and
  its events are unchanged, and recovery does not run. Once these three checks pass,
  the call first attaches the dialog handler and navigates to the compose surface,
  whatever the media paths are, and every failure from there on (a missing file
  included) runs through recovery.
\<close>

theorem postTweet_input_checks:
  "(isReady s \<and> content = []
      \<longrightarrow> postTweet env content media s = (Inl (Error (js ''Tweet text is required'')), s))
   \<and> (isReady s \<and> length content > 280
      \<longrightarrow> postTweet env content media s = (Inl (Error (js ''Tweet exceeds 280 characters'')), s))
   \<and> (isReady s \<and> content \<noteq> [] \<and> length content \<le> 280 \<and> length media > 4
      \<longrightarrow> postTweet env content media s =
            (Inl (Error (js ''Maximum 4 media files allowed'')), s))
   \<and> (isReady s \<and> content \<noteq> [] \<and> length content \<le> 280 \<and> length media \<le> 4
        \<and> page s = Some p
      \<longrightarrow> (\<exists>tr. trace (snd (postTweet env content media s)) =
              trace s @ [Act OnDialog,
                Act (Goto (js ''https://x.com/compose/post'') NetworkIdle2 (timeout s))] @ tr)
          \<and> (\<forall>e. fst (postTweet env content media s) = Inl e
                \<longrightarrow> Enter ''_recoverPage'' \<in> set (trace (snd (postTweet env content media s)))))"
proof -
  have a: "postTweet env content media s = (Inl (Error (js ''Tweet text is required'')), s)"
    if "isReady s" "content = []"
    using that by (simp add: postTweet_def bnd_def ensureReady_def throw_def)
  have b: "postTweet env content media s =
      (Inl (Error (js ''Tweet exceeds 280 characters'')), s)"
    if "isReady s" "length content > 280"
    using that by (auto simp: postTweet_def bnd_def ensureReady_def throw_def)
  have c: "postTweet env content media s =
      (Inl (Error (js ''Maximum 4 media files allowed'')), s)"
    if "isReady s" "content \<noteq> []" "length content \<le> 280" "length media > 4"
    using that by (simp add: postTweet_def bnd_def ensureReady_def throw_def)
  have d: "Enter ''_recoverPage'' \<in> set (trace (snd (postTweet env content media s)))"
    if v: "isReady s" "content \<noteq> []" "length content \<le> 280" "length media \<le> 4"
      and f: "fst (postTweet env content media s) = Inl e" for e
  proof -
    obtain r1 s1 where body: "postTweetBody env content media s = (r1, s1)"
      by (cases "postTweetBody env content media s")
    show ?thesis
    proof (cases r1)
      case (Inr x)
      with body f v show ?thesis by (simp add: postTweet_unfold tryCatch_def)
    next
      case (Inl e')
      from recoverPage_enters [of env s1] postTweet_failure [OF v body [unfolded Inl]]
      show ?thesis by auto
    qed
  qed
  from a b c d postTweet_starts show ?thesis by blast
qed

theorem postTweet_input_checks_witness:
  "postTweet composeSite [] [] (readyBot 0) =
      (Inl (Error (js ''Tweet text is required'')), readyBot 0)
   \<and> postTweet composeSite (replicate 281 97) [] (readyBot 0) =
      (Inl (Error (js ''Tweet exceeds 280 characters'')), readyBot 0)
   \<and> postTweet composeSite (js ''hi'') (replicate 5 (js ''a.png'')) (readyBot 0) =
      (Inl (Error (js ''Maximum 4 media files allowed'')), readyBot 0)
   \<and> take 2 (trace (snd (postTweet noFilesSite (js ''hi'') [js ''/tmp/gone.png''] (readyBot 0)))) =
      [Act OnDialog, Act (Goto (js ''https://x.com/compose/post'') NetworkIdle2 600000)]
   \<and> Enter ''_recoverPage''
        \<in> set (trace (snd (postTweet noFilesSite (js ''hi'') [js ''/tmp/gone.png''] (readyBot 0))))"
proof -
  have r: "isReady (readyBot (0::nat))" "page (readyBot (0::nat)) = Some 0"
    "timeout (readyBot (0::nat)) = 600000" "trace (readyBot (0::nat)) = []"
    by (simp_all add: readyBot_def)
  have l: "length (replicate 281 (97::nat)) > 280" "js ''hi'' \<noteq> []" "length (js ''hi'') \<le> 280"
    "length (replicate 5 (js ''a.png'')) > 4" "length [js ''/tmp/gone.png''] \<le> 4"
    by (simp_all add: js_def)
  have f: "fst (postTweet noFilesSite (js ''hi'') [js ''/tmp/gone.png''] (readyBot 0)) =
     Inl (Error (js ''File not found: /tmp/gone.png''))"
    by (simp add: post_defs prog_defs site_defs mock_defs Let_def js_def)
  from postTweet_input_checks [where s = "readyBot 0" and content = "[]" and env = composeSite
      and media = "[]"] r
  have c1: "postTweet composeSite [] [] (readyBot 0) =
      (Inl (Error (js ''Tweet text is required'')), readyBot 0)" by blast
  from postTweet_input_checks [where s = "readyBot 0" and content = "replicate 281 97"
      and env = composeSite and media = "[]"] r l
  have c2: "postTweet composeSite (replicate 281 97) [] (readyBot 0) =
      (Inl (Error (js ''Tweet exceeds 280 characters'')), readyBot 0)" by blast
  from postTweet_input_checks [where s = "readyBot 0" and content = "js ''hi''"
      and env = composeSite and media = "replicate 5 (js ''a.png'')"] r l
  have c3: "postTweet composeSite (js ''hi'') (replicate 5 (js ''a.png'')) (readyBot 0) =
      (Inl (Error (js ''Maximum 4 media files allowed'')), readyBot 0)" by blast
  from postTweet_input_checks [where s = "readyBot 0" and content = "js ''hi''"
      and env = noFilesSite and media = "[js ''/tmp/gone.png'']" and p = 0] r l f
  have c4: "\<exists>tr. trace (snd (postTweet noFilesSite (js ''hi'') [js ''/tmp/gone.png''] (readyBot 0))) =
              [Act OnDialog,
                Act (Goto (js ''https://x.com/compose/post'') NetworkIdle2 600000)] @ tr"
    and c5: "Enter ''_recoverPage''
        \<in> set (trace (snd (postTweet noFilesSite (js ''hi'') [js ''/tmp/gone.png''] (readyBot 0))))"
    by auto
  from c4 have "take 2 (trace (snd (postTweet noFilesSite (js ''hi'') [js ''/tmp/gone.png'']
      (readyBot 0)))) =
      [Act OnDialog, Act (Goto (js ''https://x.com/compose/post'') NetworkIdle2 600000)]"
    by auto
  with c1 c2 c3 c5 show ?thesis by simp
qed

text \<open>
  C7, as stated, fails for \<^verbatim>\<open>followUser\<close> (and \<^verbatim>\<open>unfollowUser\<close>): on a profile that
  shows the error landmark the call fails after one navigation, one delay and one read,
  and neither cleanup nor recovery runs.
\<close>

theorem follow_failure_no_recovery_counterexample:
  "fst (followUser notFoundSite (js ''nobody'') (readyBot ())) =
     Inl (Error (js ''User @nobody not found or account is suspended''))
   \<and> trace (snd (followUser notFoundSite (js ''nobody'') (readyBot ()))) =
     [Act (Goto (js ''https://x.com/nobody'') NetworkIdle2 600000), Act (Delay 2000),
      Act Evaluate, Obs (blankDom\<lparr>emptyStateHeader := True\<rparr>)]
   \<and> Enter ''_recoverPage'' \<notin> set (trace (snd (followUser notFoundSite (js ''nobody'') (readyBot ()))))"
  by (simp add: follow_defs prog_defs site_defs mock_defs Let_def js_def)

text \<open>
  C7, amended. A failure inside the \<^verbatim>\<open>try\<close> block of \<^verbatim>\<open>postTweet\<close> runs recovery from
  the state of the failure, drops whatever recovery itself returns, emits
  \<^verbatim>\<open>tweetFailed\<close> and re-raises the original error. A failure inside \<^verbatim>\<open>followUser\<close> or
  \<^verbatim>\<open>unfollowUser\<close> emits the failure event on the state of the failure and re-raises
  the original error, with no recovery.
\<close>

theorem failure_paths:
  "(isReady s \<and> content \<noteq> [] \<and> length content \<le> 280 \<and> length media \<le> 4
      \<and> postTweetBody env content media s = (Inl e, s1)
    \<longrightarrow> postTweet env content media s =
          (Inl e, (snd (recoverPage env s1))\<lparr>events := events (snd (recoverPage env s1))
                                                 @ [EvTweetFailed content e]\<rparr>)
        \<and> (\<exists>tr. trace (snd (recoverPage env s1)) = trace s1 @ [Enter ''_recoverPage''] @ tr))
   \<and> (isReady t \<and> u \<noteq> [] \<and> followBody env (stripAt u) t = (Inl e2, t1)
    \<longrightarrow> followUser env u t =
          (Inl e2, t1\<lparr>events := events t1 @ [EvFollowFailed (stripAt u) e2]\<rparr>))
   \<and> (isReady v \<and> u \<noteq> [] \<and> unfollowBody env (stripAt u) v = (Inl e3, v1)
    \<longrightarrow> unfollowUser env u v =
          (Inl e3, v1\<lparr>events := events v1 @ [EvUnfollowFailed (stripAt u) e3]\<rparr>))"
  using postTweet_failure [of s content media env e s1] recoverPage_enters [of env s1]
  by (auto simp: followUser_unfold unfollowUser_unfold tryCatch_def bnd_def emit_def throw_def)

theorem failure_paths_witness:
  "fst (postTweet deadSite (js ''hi'') [] (readyBot ())) =
      Inl (DriverError (Goto (js ''https://x.com/compose/post'') NetworkIdle2 600000))
   \<and> fst (recoverPage deadSite (snd (postTweetBody deadSite (js ''hi'') [] (readyBot ())))) =
      Inl (DriverError Pages)
   \<and> events (snd (postTweet deadSite (js ''hi'') [] (readyBot ()))) =
      [EvTweetFailed (js ''hi'')
         (DriverError (Goto (js ''https://x.com/compose/post'') NetworkIdle2 600000))]
   \<and> Enter ''_recoverPage'' \<in> set (trace (snd (postTweet deadSite (js ''hi'') [] (readyBot ()))))
   \<and> followUser notFoundSite (js ''@ghost'') (readyBot ()) =
      (Inl (Error (js ''User @ghost not found or account is suspended'')),
       (snd (followBody notFoundSite (js ''ghost'') (readyBot ())))
         \<lparr>events := [EvFollowFailed (js ''ghost'')
             (Error (js ''User @ghost not found or account is suspended''))]\<rparr>)
   \<and> unfollowUser notFoundSite (js ''@ghost'') (readyBot ()) =
      (Inl (Error (js ''User @ghost not found or account is suspended'')),
       (snd (unfollowBody notFoundSite (js ''ghost'') (readyBot ())))
         \<lparr>events := [EvUnfollowFailed (js ''ghost'')
             (Error (js ''User @ghost not found or account is suspended''))]\<rparr>)"
proof -
  note ev = post_defs follow_defs prog_defs site_defs mock_defs Let_def js_def
  let ?g = "DriverError (Goto (js ''https://x.com/compose/post'') NetworkIdle2 600000)"
  let ?nf = "Error (js ''User @ghost not found or account is suspended'')"
  define s1 where "s1 = snd (postTweetBody deadSite (js ''hi'') [] (readyBot ()))"
  define t1 where "t1 = snd (followBody notFoundSite (js ''ghost'') (readyBot ()))"
  define v1 where "v1 = snd (unfollowBody notFoundSite (js ''ghost'') (readyBot ()))"
  have r: "isReady (readyBot ())" by (simp add: readyBot_def)
  have l: "js ''hi'' \<noteq> []" "length (js ''hi'') \<le> 280" "length ([] :: jsstring list) \<le> 4"
    "js ''@ghost'' \<noteq> []" "stripAt (js ''@ghost'') = js ''ghost''"
    by (simp_all add: js_def stripAt_def)
  have b: "postTweetBody deadSite (js ''hi'') [] (readyBot ()) = (Inl ?g, s1)"
    unfolding s1_def by (simp add: ev)
  have rc: "fst (recoverPage deadSite s1) = Inl (DriverError Pages)"
    and e0: "events (snd (recoverPage deadSite s1)) = []"
    unfolding s1_def by (simp_all add: ev)
  have fb: "followBody notFoundSite (stripAt (js ''@ghost'')) (readyBot ()) = (Inl ?nf, t1)"
    and fe: "events t1 = []"
    unfolding t1_def l(5) by (simp_all add: ev)
  have ub: "unfollowBody notFoundSite (stripAt (js ''@ghost'')) (readyBot ()) = (Inl ?nf, v1)"
    and ue: "events v1 = []"
    unfolding v1_def l(5) by (simp_all add: ev)
  from failure_paths [where s = "readyBot ()" and content = "js ''hi''" and media = "[]"
      and env = deadSite and e = ?g and ?s1.0 = s1] r l b
  have p1: "postTweet deadSite (js ''hi'') [] (readyBot ()) =
          (Inl ?g, (snd (recoverPage deadSite s1))\<lparr>events := events (snd (recoverPage deadSite s1))
                                                 @ [EvTweetFailed (js ''hi'') ?g]\<rparr>)"
    and p2: "\<exists>tr. trace (snd (recoverPage deadSite s1)) = trace s1 @ [Enter ''_recoverPage''] @ tr"
    by blast+
  from failure_paths [where t = "readyBot ()" and u = "js ''@ghost''" and env = notFoundSite
      and ?e2.0 = ?nf and ?t1.0 = t1 and v = "readyBot ()" and ?e3.0 = ?nf and ?v1.0 = v1]
    r l fb ub
  have p3: "followUser notFoundSite (js ''@ghost'') (readyBot ()) =
          (Inl ?nf, t1\<lparr>events := events t1 @ [EvFollowFailed (js ''ghost'') ?nf]\<rparr>)"
    and p4: "unfollowUser notFoundSite (js ''@ghost'') (readyBot ()) =
          (Inl ?nf, v1\<lparr>events := events v1 @ [EvUnfollowFailed (js ''ghost'') ?nf]\<rparr>)"
    by auto
  from p1 p2 p3 p4 rc e0 fe ue show ?thesis
    unfolding s1_def t1_def v1_def by auto
qed

text \<open>
  C1, as stated, fails for \<^verbatim>\<open>searchAndLike\<close>: on a page whose like button ignores the
  click the call reports one like, and the only DOM read of the run precedes the click.
\<close>

theorem searchAndLike_unverified_counterexample:
  "fst (searchAndLike likeSite (js ''cats'') 5 (readyBot ())) =
     Inr \<lparr>lr_query = js ''cats'', lr_liked = 1\<rparr>
   \<and> trace (snd (searchAndLike likeSite (js ''cats'') 5 (readyBot ()))) =
     [Act (Goto (js ''https://x.com/search?q=cats&src=typed_query&f=live'') NetworkIdle2 600000),
      Act (Delay 1000), Act (Query LikeSel), Obs (blankDom\<lparr>likeHandles := 1\<rparr>),
      Act (HandleClick LikeSel 0), Act (Delay 1000)]"
  by (simp add: misc_defs ensureReady_def prog_defs mock_defs Let_def js_def)

text \<open>
  C1, amended. \<^verbatim>\<open>postTweet\<close> returns \<^verbatim>\<open>success: true\<close> only when the feed, read after
  the compose surface closed, holds the tweet (the last read of the run, followed by the
  removal of the dialog handler alone); \<^verbatim>\<open>followUser\<close> returns \<^verbatim>\<open>followed\<close> only when a
  read made after the click attempt and the settle delay shows a following signal;
  \<^verbatim>\<open>unfollowUser\<close> returns \<^verbatim>\<open>unfollowed\<close> only when its last read shows a follow button.
  \<^verbatim>\<open>setupProfile\<close> and \<^verbatim>\<open>searchAndLike\<close> do not verify: every result of
  \<^verbatim>\<open>setupProfile\<close> has \<^verbatim>\<open>saved: true\<close>, and where no driver call throws
  \<^verbatim>\<open>searchAndLike\<close> reports as many likes as it clicked handles, the smaller of the
  requested count and the number of like buttons it read before clicking.
\<close>

theorem success_requires_dom_evidence:
  "(postTweet env content media s = (Inr r, s')
      \<longrightarrow> tr_success r
        \<and> (\<exists>tr d. trace s' = trace s @ tr @ [Obs d, Act OffDialog]
               \<and> vf_found (verifyFeed content d)
               \<and> tr_postId r = vf_postId (verifyFeed content d)))
   \<and> (followUser env u t = (Inr fr, t') \<and> fr_status fr = js ''followed''
      \<longrightarrow> (\<exists>d1 d2 d0 d. trace t' = trace t @ probeTrace t (stripAt u) d1 d2 @ followActTrace d0 d
               \<and> followConfirmed d))
   \<and> (unfollowUser env u v = (Inr ur, v') \<and> fr_status ur = js ''unfollowed''
      \<longrightarrow> (\<exists>tr d. trace v' = trace v @ tr @ [Obs d] \<and> followBtn d))
   \<and> (setupProfile env opts x = (Inr pr, x') \<longrightarrow> pr_saved pr)
   \<and> ((\<forall>rcv a w. fst (react env rcv a w)) \<and> searchAndLike env q c y = (Inr lr, y')
      \<longrightarrow> (\<exists>tr d. trace y' = trace y @ tr \<and> Obs d \<in> set tr
               \<and> lr_liked lr = nat (min c (int (likeHandles d)))))"
proof -
  have a: "tr_success r
        \<and> (\<exists>tr d. trace s' = trace s @ tr @ [Obs d, Act OffDialog]
               \<and> vf_found (verifyFeed content d)
               \<and> tr_postId r = vf_postId (verifyFeed content d))"
    if "postTweet env content media s = (Inr r, s')"
    using postTweetBody_Inr [OF postTweet_Inr [OF that]] by blast
  have b: "\<exists>d1 d2 d0 d. trace t' = trace t @ probeTrace t (stripAt u) d1 d2 @ followActTrace d0 d
               \<and> followConfirmed d"
    if "followUser env u t = (Inr fr, t')" "fr_status fr = js ''followed''"
    using followBody_Inr [of env "stripAt u" t fr t'] followUser_Inr [OF that(1)] that(2)
    by auto
  have c: "\<exists>tr d. trace v' = trace v @ tr @ [Obs d] \<and> followBtn d"
    if "unfollowUser env u v = (Inr ur, v')" "fr_status ur = js ''unfollowed''"
    using unfollowUser_Inr [OF that(1)] that(2) by auto
  have d: "pr_saved pr" if "setupProfile env opts x = (Inr pr, x')"
    using setupProfile_yields [of env opts] that unfolding yields_def by blast
  from a b c d searchAndLike_all_ok show ?thesis by blast
qed

theorem success_requires_dom_evidence_witness:
  "fst (postTweet composeSite (js ''Hello world!'') [] (readyBot 0)) =
     Inr \<lparr>tr_success = True, tr_content = js ''Hello world!'',
          tr_postId = Some (js ''1234567890''),
          tr_timestamp = js ''2024-01-01T00:00:00.000Z''\<rparr>
   \<and> (\<exists>tr d. trace (snd (postTweet composeSite (js ''Hello world!'') [] (readyBot 0))) =
          tr @ [Obs d, Act OffDialog] \<and> vf_found (verifyFeed (js ''Hello world!'') d)
          \<and> vf_postId (verifyFeed (js ''Hello world!'') d) = Some (js ''1234567890''))
   \<and> fst (followUser profileSite (js ''alice'') (readyBot False)) =
     Inr \<lparr>fr_username = js ''alice'', fr_status = js ''followed'',
          fr_timestamp = js ''2024-01-01T00:00:00.000Z''\<rparr>
   \<and> (\<exists>tr d. trace (snd (followUser profileSite (js ''alice'') (readyBot False))) =
          tr @ [Act (Delay 2000), Act Evaluate, Obs d] \<and> followConfirmed d)
   \<and> fst (unfollowUser profileSite (js ''alice'') (readyBot True)) =
     Inr \<lparr>fr_username = js ''alice'', fr_status = js ''unfollowed'',
          fr_timestamp = js ''2024-01-01T00:00:00.000Z''\<rparr>
   \<and> (\<exists>tr d. trace (snd (unfollowUser profileSite (js ''alice'') (readyBot True))) =
          tr @ [Obs d] \<and> followBtn d)
   \<and> pr_saved (projr (fst (setupProfile blankSite noProfileOptions (readyBot ()))))
   \<and> lr_liked (projr (fst (searchAndLike likeSite (js ''cats'') 5 (readyBot ())))) =
      nat (min 5 (int (likeHandles (blankDom\<lparr>likeHandles := 1\<rparr>))))"
proof -
  let ?hello = "js ''Hello world!''"
  let ?ts = "js ''2024-01-01T00:00:00.000Z''"
  let ?R = "\<lparr>tr_success = True, tr_content = ?hello, tr_postId = Some (js ''1234567890''),
            tr_timestamp = ?ts\<rparr>"
  let ?F = "\<lparr>fr_username = js ''alice'', fr_status = js ''followed'', fr_timestamp = ?ts\<rparr>"
  let ?U = "\<lparr>fr_username = js ''alice'', fr_status = js ''unfollowed'', fr_timestamp = ?ts\<rparr>"
  let ?P = "\<lparr>pr_avatar = False, pr_header = False, pr_displayName = False, pr_bio = False,
          pr_location = False, pr_website = False, pr_saved = True, pr_timestamp = ?ts\<rparr>"
  let ?L = "\<lparr>lr_query = js ''cats'', lr_liked = 1\<rparr>"
  define s' where "s' = snd (postTweet composeSite ?hello [] (readyBot 0))"
  define t' where "t' = snd (followUser profileSite (js ''alice'') (readyBot False))"
  define v' where "v' = snd (unfollowUser profileSite (js ''alice'') (readyBot True))"
  define x' where "x' = snd (setupProfile blankSite noProfileOptions (readyBot ()))"
  define y' where "y' = snd (searchAndLike likeSite (js ''cats'') 5 (readyBot ()))"
  have h1: "postTweet composeSite ?hello [] (readyBot 0) = (Inr ?R, s')"
    unfolding s'_def using eval_postTweet_hello by (metis prod.collapse)
  have h2: "followUser profileSite (js ''alice'') (readyBot False) = (Inr ?F, t')"
    unfolding t'_def using eval_follow_alice by (metis prod.collapse)
  have h3: "unfollowUser profileSite (js ''alice'') (readyBot True) = (Inr ?U, v')"
    unfolding v'_def using eval_unfollow_alice by (metis prod.collapse)
  have h4: "setupProfile blankSite noProfileOptions (readyBot ()) = (Inr ?P, x')"
    unfolding x'_def using eval_setupProfile_blank by (metis prod.collapse)
  have h5: "searchAndLike likeSite (js ''cats'') 5 (readyBot ()) = (Inr ?L, y')"
    unfolding y'_def using eval_searchAndLike_cats by (metis prod.collapse)
  have tr0: "trace (readyBot w) = []" for w :: 'w by (simp add: readyBot_def)
  note T = success_requires_dom_evidence [where env = composeSite and content = ?hello
      and media = "[]" and s = "readyBot 0" and r = ?R and s' = s']
  from T h1 tr0 have c1: "\<exists>tr d. trace s' = tr @ [Obs d, Act OffDialog]
      \<and> vf_found (verifyFeed ?hello d)
      \<and> vf_postId (verifyFeed ?hello d) = Some (js ''1234567890'')"
    by fastforce
  note T2 = success_requires_dom_evidence [where env = profileSite and u = "js ''alice''"
      and t = "readyBot False" and fr = ?F and t' = t'
      and v = "readyBot True" and ur = ?U and v' = v']
  from T2 h2 tr0 obtain d1 d2 d0 d where
    c2': "trace t' = probeTrace (readyBot False) (stripAt (js ''alice'')) d1 d2 @ followActTrace d0 d"
      "followConfirmed d"
    by fastforce
  from c2'(1) have "trace t' = (probeTrace (readyBot False) (stripAt (js ''alice'')) d1 d2
      @ [Act Evaluate, Obs d0] @ (if followBtn d0 then [Act (Click FollowButton)] else []))
      @ [Act (Delay 2000), Act Evaluate, Obs d]"
    by (simp add: followActTrace_def)
  with c2'(2) have c2: "\<exists>tr d. trace t' = tr @ [Act (Delay 2000), Act Evaluate, Obs d]
      \<and> followConfirmed d"
    by blast
  from T2 h3 tr0 have c3: "\<exists>tr d. trace v' = tr @ [Obs d] \<and> followBtn d"
    by fastforce
  note T4 = success_requires_dom_evidence [where env = blankSite and opts = noProfileOptions
      and x = "readyBot ()" and pr = ?P and x' = x']
  from T4 [THEN conjunct2, THEN conjunct2, THEN conjunct2, THEN conjunct1] h4
  have c4: "pr_saved ?P" by blast
  note T5 = success_requires_dom_evidence [where env = likeSite and q = "js ''cats''"
      and c = 5 and y = "readyBot ()" and lr = ?L and y' = y']
  from T5 [THEN conjunct2, THEN conjunct2, THEN conjunct2, THEN conjunct2] h5 likeSite_all_ok
  obtain tr d where c5'': "trace y' = trace (readyBot ()) @ tr" "Obs d \<in> set tr"
    "lr_liked ?L = nat (min 5 (int (likeHandles d)))"
    by blast
  have "trace y' = [Act (Goto (js ''https://x.com/search?q=cats&src=typed_query&f=live'')
          NetworkIdle2 600000),
      Act (Delay 1000), Act (Query LikeSel), Obs (blankDom\<lparr>likeHandles := 1\<rparr>),
      Act (HandleClick LikeSel 0), Act (Delay 1000)]"
    unfolding y'_def
    by (simp add: misc_defs ensureReady_def prog_defs mock_defs Let_def js_def)
  with c5''(1,2) have "d = blankDom\<lparr>likeHandles := 1\<rparr>"
    by (auto simp: readyBot_def)
  with c5''(3) have c5: "lr_liked ?L = nat (min 5 (int (likeHandles (blankDom\<lparr>likeHandles := 1\<rparr>))))"
    by simp
  from c5 have c5': "lr_liked (projr (fst (searchAndLike likeSite (js ''cats'') 5 (readyBot ())))) =
      nat (min 5 (int (likeHandles (blankDom\<lparr>likeHandles := 1\<rparr>))))"
    by (simp add: h5)
  from c4 have c4': "pr_saved (projr (fst (setupProfile blankSite noProfileOptions (readyBot ()))))"
    by (simp add: h4)
  from eval_postTweet_hello c1 eval_follow_alice c2 eval_unfollow_alice c3 c4' c5' show ?thesis
    unfolding s'_def t'_def v'_def by blast
qed




text \<open>
  C4. Every result of \<^verbatim>\<open>getTweetComments\<close> holds at most \<^verbatim>\<open>count\<close> comments and,
  when the reply count read from the page is available (not 0), at most the smaller of
  \<^verbatim>\<open>count\<close> and that reply count; the comments have pairwise distinct identities
  (the tweet id, else handle, underscore and text); \<^verbatim>\<open>collected\<close> is their number,
  \<^verbatim>\<open>requested\<close> is \<^verbatim>\<open>count\<close>, and \<^verbatim>\<open>actualReplyCount\<close> is the count of the first
  reply button of a DOM the call has read.
\<close>

theorem getTweetComments_bound_and_distinct:
  assumes "getTweetComments env tweetId count0 s = (Inr r, s')"
  shows "length (cr_comments r) \<le> nat count0
       \<and> (cr_actualReplyCount r > 0
            \<longrightarrow> length (cr_comments r) \<le> min (nat count0) (cr_actualReplyCount r))
       \<and> distinct (map commentKey (cr_comments r))
       \<and> cr_collected r = length (cr_comments r) \<and> cr_requested r = count0
       \<and> (\<exists>d tr. trace s' = trace s @ tr \<and> Obs d \<in> set tr
             \<and> cr_actualReplyCount r = parseLabel (pageReply d) None)"
proof -
  from assms have t: "tweetId \<noteq> []"
    unfolding getTweetComments_def by (auto elim!: bnd_InrE split: if_splits)
  from assms [unfolded getTweetComments_def Let_def] show ?thesis
  proof (elim bnd_InrE, goal_cases)
    case (1 x0 s0)
    note k = 1(2) [unfolded if_not_P [OF t]]
    from k show ?case
    proof (elim bnd_InrE, goal_cases)
      case (1 u s1 current s2 x3 s3 x4 s4 d s5 mb s6)
      obtain m b where mb: "mb = (m, b)" by (cases mb)
      define actual where "actual = parseLabel (pageReply d) None"
      define target where "target = min count0 (if actual = 0 then count0 else int actual)"
      have loop: "scrollLoop env target [] 0 s5 = (Inr (m, b), s6)"
        using 1(6) unfolding mb actual_def target_def .
      have r: "r = \<lparr>cr_id = tweetId, cr_url = u, cr_requested = count0,
          cr_actualReplyCount = actual,
          cr_collected = length (slice0 (map snd m) target),
          cr_scrollBlocked = b, cr_comments = slice0 (map snd m) target\<rparr>"
        using 1(7) unfolding mb actual_def target_def prod.case by (elim ret_InrE) simp
      from scrollLoop_good [OF loop] have g: "goodMap m" by simp
      have len: "length (slice0 (map snd m) target) \<le> nat target"
      proof (cases "0 \<le> target")
        case True
        then show ?thesis by (rule slice0_length)
      next
        case False
        with loop have "m = []" by (simp add: scrollLoop.simps)
        then show ?thesis by (simp add: slice0_def)
      qed
      have t1: "nat target \<le> nat count0" by (simp add: target_def)
      have t2: "actual > 0 \<Longrightarrow> nat target \<le> actual" by (auto simp: target_def)
      from navBudget_Inr_extends [OF navBudget_getTweetComments assms]
      obtain tr where tr: "trace s' = trace s @ tr" by blast
      have "\<exists>tr. trace s' = trace s @ tr \<and> Obs d \<in> set tr"
      proof -
        from 1(1) \<open>ensureReady s = (Inr x0, s0)\<close> have "s1 = s"
          by (auto elim!: get_InrE ensureReady_InrE)
        moreover from navBudget_Inr_extends [OF navBudget_readUrl 1(2)]
        obtain a where "trace s2 = trace s1 @ a" by blast
        moreover have "navBudget (if \<not> js_includes current (js ''/status/'' @ tweetId)
          then goto env u NetworkIdle2 else ret ())" by auto
        from navBudget_Inr_extends [OF this 1(3)]
        obtain b where "trace s3 = trace s2 @ b" by blast
        moreover from navBudget_Inr_extends [OF navBudget_delay 1(4)]
        obtain c where "trace s4 = trace s3 @ c" by blast
        moreover from 1(5) have "trace s5 = trace s4 @ [Act Evaluate, Obs d]"
          by (auto elim!: evaluate_InrE)
        moreover from scrollLoop_budget [OF loop]
        obtain e where "trace s6 = trace s5 @ e" by blast
        moreover from 1(7) mb have "s' = s6" by (auto elim: ret_InrE)
        ultimately have "trace s' = trace s @ (a @ b @ c @ [Act Evaluate, Obs d] @ e)"
          "Obs d \<in> set (a @ b @ c @ [Act Evaluate, Obs d] @ e)"
          by auto
        then show ?thesis by blast
      qed
      with r len t1 t2 slice0_distinct [OF g, of target] show ?case
        unfolding actual_def by auto
    qed
  qed
qed

theorem getTweetComments_bound_and_distinct_witness:
  "cr_requested (projr (fst (getTweetComments threadSite (js ''123'') 10 (readyBot ())))) = 10
   \<and> cr_actualReplyCount (projr (fst (getTweetComments threadSite (js ''123'') 10 (readyBot ())))) = 4
   \<and> cr_collected (projr (fst (getTweetComments threadSite (js ''123'') 10 (readyBot ())))) = 4
   \<and> \<not> cr_scrollBlocked (projr (fst (getTweetComments threadSite (js ''123'') 10 (readyBot ()))))
   \<and> map commentKey
        (cr_comments (projr (fst (getTweetComments threadSite (js ''123'') 10 (readyBot ()))))) =
      [js ''201'', js ''202'', js ''203'', js ''@dee_fourth'']
   \<and> length (cr_comments (projr (fst (getTweetComments threadSite (js ''123'') 10 (readyBot ())))))
        \<le> min (nat 10) 4
   \<and> distinct (map commentKey
        (cr_comments (projr (fst (getTweetComments threadSite (js ''123'') 10 (readyBot ()))))))"
proof -
  let ?run = "getTweetComments threadSite (js ''123'') 10 (readyBot ())"
  let ?R = "\<lparr>cr_id = js ''123'', cr_url = js ''https://x.com/i/status/123'', cr_requested = 10,
          cr_actualReplyCount = 4, cr_collected = 4, cr_scrollBlocked = False,
          cr_comments = map commentOf
            [replyArticle (Some (js ''/ann/status/201'')) ''ann'' ''first'',
             replyArticle (Some (js ''/bob/status/202'')) ''bob'' ''second'',
             replyArticle (Some (js ''/cy/status/203'')) ''cy'' ''third'',
             replyArticle None ''dee'' ''fourth'']\<rparr>"
  have h: "?run = (Inr ?R, snd ?run)"
    using eval_thread by (metis prod.collapse)
  have k: "map commentKey (cr_comments ?R) = [js ''201'', js ''202'', js ''203'', js ''@dee_fourth'']"
    by (simp add: commentOf_def commentKey_def replyArticle_def str_or_def isDigit_def js_def)
  from getTweetComments_bound_and_distinct [OF h]
  have "length (cr_comments ?R) \<le> min (nat 10) (cr_actualReplyCount ?R)"
    and "distinct (map commentKey (cr_comments ?R))"
    by simp_all
  with k show ?thesis by (simp add: eval_thread)
qed







end
